theory Spec2Isabelle
  imports
    Complex_Main
    "HOL-Library.Char_ord"
    "HOL-Library.List_Lexorder"
    "HOL-Library.Product_Lexorder"
    "HOL-Library.Multiset"
begin

text \<open>
  A shallow embedding of the recognition and attendance pipeline of the Smart
  Attendance System: the embedding registry (\<open>utils/database.py\<close>), the match engine
  and the attendance ledger (\<open>utils/attendance_manager.py\<close>) and the face locator
  (\<open>utils/face_detector.py\<close>). Object state is passed explicitly and returned
  updated, exceptions are values of type \<open>error\<close>, and the library calls the code
  relies on (the cascade, \<open>cv2.resize\<close>, \<open>cosine_similarity\<close>, the CSV reader, the
  regular expression compiler) are arguments of the functions that use them.
\<close>

section \<open>Strings and errors\<close>

text \<open>
  A Python \<open>str\<close> is modelled as a \<open>string\<close>: a list of characters with code points
  below 256. \<open>str.isspace\<close> holds for the ASCII white space characters (tab, line
  feed, vertical tab, form feed, carriage return, the four separators 28 to 31 and the
  space) and, in the Latin-1 range, for 133 and 160. \<open>str.strip()\<close> removes the
  longest white prefix and the longest white suffix.
\<close>

definition py_isspace :: "char \<Rightarrow> bool" where
  "py_isspace c = ((of_char c :: nat) \<in> {9, 10, 11, 12, 13, 28, 29, 30, 31, 32, 133, 160})"

definition py_strip :: "string \<Rightarrow> string" where
  "py_strip s = rev (dropWhile py_isspace (rev (dropWhile py_isspace s)))"

text \<open>
  The exceptions the modelled functions raise. \<open>ValueError\<close> carries its message;
  \<open>TypeError\<close> is what unpacking a float into two names raises; \<open>AttributeError\<close>
  is what the \<open>.str\<close> accessor raises on a column that holds no strings; \<open>OSError\<close> is
  a failed \<open>open\<close> for writing; \<open>Failure\<close> is the plain \<open>Exception\<close> that the
  code raises around a failed write.
\<close>

datatype error = ValueError string | TypeError | AttributeError | OSError | Failure string

section \<open>Attendance ledger (\<open>utils/attendance_manager.py\<close>)\<close>

text \<open>
  One row of the attendance table, with the columns of the CSV file. The file is
  modelled as the table it holds: \<open>None\<close> when no file exists at the path, and
  \<open>Some rows\<close> for a file with the header and the rows in file order. The fields are
  the text of the cells.

  \<open>pd.read_csv\<close> does not hand every cell back as it was written. It types each
  column from all of its cells: a cell whose text is one of the reader's missing-value
  strings (\<open>NA\<close>, \<open>NaN\<close>, \<open>null\<close> and others) is read as \<open>NaN\<close>, and a column
  whose other cells are all numerals, or all truth values, is read as numbers or
  truth values. Such a value equals no string, and the \<open>.str\<close> accessor raises on a
  column of them. What the reader does with the \<open>Name\<close> column is an argument of
  the model, a \<open>csv_reader\<close>:
  \<^item> \<open>reads_text reader column c\<close> says that a cell written as \<open>c\<close>, in a column
    written as \<open>column\<close>, is read back as the string \<open>c\<close>;
  \<^item> \<open>str_accessor reader column rows\<close> says that the \<open>.str\<close> accessor accepts the
    selection \<open>rows\<close> of the cells of \<open>column\<close>, and does not raise.

  The \<open>Date\<close> and \<open>Time\<close> cells are outputs of \<open>strftime\<close>, which are never
  numerals or missing-value strings, and are read as text.
\<close>

record attendance_record =
  Name :: string
  Date :: string
  Time :: string

text \<open>
  The part of an \<open>AttendanceManager\<close> that \<open>mark_attendance\<close>,
  \<open>get_attendance_log\<close> and \<open>reset_session\<close> read and write: the table behind
  \<open>attendance_csv\<close> and the set \<open>marked_today\<close>.
\<close>

record ledger =
  attendance_csv :: "attendance_record list option"
  marked_today :: "string set"

definition read_csv :: "attendance_record list option \<Rightarrow> attendance_record list" where
  "read_csv f = (case f of None \<Rightarrow> [] | Some rows \<Rightarrow> rows)"

record csv_reader =
  reads_text :: "string list \<Rightarrow> string \<Rightarrow> bool"
  str_accessor :: "string list \<Rightarrow> string list \<Rightarrow> bool"

text \<open>
  The value of a cell of the \<open>Name\<close> column in the table read back: \<open>Some\<close> string,
  or \<open>None\<close> for a value that is no string.
\<close>

definition read_cell :: "csv_reader \<Rightarrow> string list \<Rightarrow> string \<Rightarrow> string option" where
  "read_cell reader column c = (if reads_text reader column c then Some c else None)"

text \<open>
  \<open>mark_attendance(name)\<close>. The two readings of the clock, \<open>today\<close> and
  \<open>current_time\<close>, are arguments. The result is the returned boolean and the state
  after the call.
\<close>

definition mark_attendance ::
  "csv_reader \<Rightarrow> 'a ledger_scheme \<Rightarrow> string option \<Rightarrow> string \<Rightarrow> string \<Rightarrow>
   bool \<times> 'a ledger_scheme" where
  "mark_attendance reader m name today current_time =
     (case name of
        None \<Rightarrow> (False, m)
      | Some raw \<Rightarrow>
          if py_strip raw = [] then (False, m)
          else
            let n = py_strip raw in
            if n \<in> marked_today m then (False, m)
            else if (case attendance_csv m of
                       None \<Rightarrow> False
                     | Some df \<Rightarrow>
                         length df > 0 \<and>
                         length (filter (\<lambda>r. read_cell reader (map Name df) (Name r) = Some n \<and>
                                              Date r = today) df) > 0)
            then (False, m)
            else
              let new_record = \<lparr>Name = n, Date = today, Time = current_time\<rparr> in
              (True, m\<lparr>attendance_csv := Some (read_csv (attendance_csv m) @ [new_record]),
                       marked_today := insert n (marked_today m)\<rparr>))"

definition reset_session :: "'a ledger_scheme \<Rightarrow> 'a ledger_scheme" where
  "reset_session m = m\<lparr>marked_today := {}\<rparr>"

text \<open>
  A run of one process: calls of \<open>mark_attendance\<close>, each with its own reading of the
  clock, with calls of \<open>reset_session\<close> anywhere between them.
\<close>

datatype call = Mark "string option" string string | Reset

fun step :: "csv_reader \<Rightarrow> 'a ledger_scheme \<Rightarrow> call \<Rightarrow> 'a ledger_scheme" where
  "step reader m (Mark name today current_time) =
     snd (mark_attendance reader m name today current_time)"
| "step reader m Reset = reset_session m"

fun run_calls :: "csv_reader \<Rightarrow> 'a ledger_scheme \<Rightarrow> call list \<Rightarrow> 'a ledger_scheme" where
  "run_calls reader m [] = m"
| "run_calls reader m (c # cs) = run_calls reader (step reader m c) cs"

text \<open>
  The reader used in the worked examples. It reads a cell that is one of
  \<open>pd.read_csv\<close>'s default missing-value strings as \<open>NaN\<close>, types a column as
  numbers when each of its cells is a missing-value string or a string of at most 18
  decimal digits, and reads every other cell as text. It agrees with \<open>pd.read_csv\<close>
  on the columns the examples use, which hold the names Alice, Bob and Khalid, or
  the single name \<open>NA\<close>. (The library types further columns, of decimals,
  infinities and truth values, which no example uses.)
\<close>

definition default_na_values :: "string list" where
  "default_na_values =
     [[], ''#N/A'', ''#N/A N/A'', ''#NA'', ''-1.#IND'', ''-1.#QNAN'', ''-NaN'', ''-nan'',
      ''1.#IND'', ''1.#QNAN'', ''<NA>'', ''N/A'', ''NA'', ''NULL'', ''NaN'', ''None'',
      ''n/a'', ''nan'', ''null'']"

definition digits :: "string \<Rightarrow> bool" where
  "digits s = (s \<noteq> [] \<and> length s \<le> 18 \<and> list_all (\<lambda>c. c \<in> set ''0123456789'') s)"

definition typed_column :: "string list \<Rightarrow> bool" where
  "typed_column column = list_all (\<lambda>c. c \<in> set default_na_values \<or> digits c) column"

definition default_reader :: csv_reader where
  "default_reader =
     \<lparr>reads_text = (\<lambda>column c. \<not> typed_column column \<and> c \<notin> set default_na_values),
      str_accessor = (\<lambda>column rows. \<not> typed_column column)\<rparr>"

text \<open>The ledger invariant: no two rows with the same name and date.\<close>

definition key_of :: "attendance_record \<Rightarrow> string \<times> string" where
  "key_of r = (Name r, Date r)"

definition ledger_ok :: "'a ledger_scheme \<Rightarrow> bool" where
  "ledger_ok m = distinct (map key_of (read_csv (attendance_csv m)))"

definition fresh_ledger :: ledger where
  "fresh_ledger = \<lparr>attendance_csv = Some [], marked_today = {}\<rparr>"

section \<open>Embedding registry (\<open>utils/database.py\<close>)\<close>

text \<open>
  A Python \<open>dict\<close> is modelled as an association list in insertion order, which is
  the order \<open>dict.items()\<close> iterates in. Assigning to a key that is present replaces
  its value in place; assigning to a new key appends it; \<open>del\<close> removes the key.
\<close>

fun dict_set :: "('k \<times> 'v) list \<Rightarrow> 'k \<Rightarrow> 'v \<Rightarrow> ('k \<times> 'v) list" where
  "dict_set [] k v = [(k, v)]"
| "dict_set ((k', v') # d) k v =
     (if k' = k then (k, v) # d else (k', v') # dict_set d k v)"

definition dict_del :: "('k \<times> 'v) list \<Rightarrow> 'k \<Rightarrow> ('k \<times> 'v) list" where
  "dict_del d k = filter (\<lambda>kv. fst kv \<noteq> k) d"

text \<open>
  What is found at \<open>embeddings_path\<close>: no file, a file that \<open>pickle.load\<close> cannot
  read, or the pickled dictionary.
\<close>

datatype 'e pickle_file = NoFile | Unreadable | Pickled "(string \<times> 'e) list"

text \<open>
  An \<open>EmbeddingDatabase\<close>: the file at its path, the dictionary \<open>self.embeddings\<close>,
  whether the file can be opened for writing, and the lines printed so far.
\<close>

record 'e embedding_database =
  embeddings_file :: "'e pickle_file"
  embeddings :: "(string \<times> 'e) list"
  writable :: bool
  printed :: "string list"

text \<open>
  \<open>load_embeddings()\<close>: the \<open>try\<close> around \<open>pickle.load\<close> catches every exception,
  prints a warning and falls back to the empty dictionary. The result is the returned
  copy and the database after the call.
\<close>

definition load_embeddings ::
  "'e embedding_database \<Rightarrow> (string \<times> 'e) list \<times> 'e embedding_database" where
  "load_embeddings self =
     (let self' =
        (case embeddings_file self of
           Pickled d \<Rightarrow> self\<lparr>embeddings := d\<rparr>
         | Unreadable \<Rightarrow>
             self\<lparr>embeddings := [],
                  printed := printed self @ [''Warning: Failed to load embeddings'']\<rparr>
         | NoFile \<Rightarrow> self\<lparr>embeddings := []\<rparr>)
      in (embeddings self', self'))"

text \<open>
  \<open>save_embedding(name, embedding)\<close>. Both checks come before any read or write. A
  failed write is re-raised as a plain \<open>Exception\<close>; by then \<open>self.embeddings\<close>
  already holds the new entry, and the file is as it was.
\<close>

definition save_embedding ::
  "'e embedding_database \<Rightarrow> string option \<Rightarrow> 'e option \<Rightarrow>
   (error + unit) \<times> 'e embedding_database" where
  "save_embedding self name embedding =
     (case name of
        None \<Rightarrow> (Inl (ValueError ''Name cannot be empty''), self)
      | Some raw \<Rightarrow>
          if py_strip raw = [] then (Inl (ValueError ''Name cannot be empty''), self)
          else
            (case embedding of
               None \<Rightarrow> (Inl (ValueError ''Embedding cannot be None''), self)
             | Some e \<Rightarrow>
                 let self1 = snd (load_embeddings self);
                     self2 = self1\<lparr>embeddings := dict_set (embeddings self1) (py_strip raw) e\<rparr>
                 in if writable self2
                    then (Inr (), self2\<lparr>embeddings_file := Pickled (embeddings self2)\<rparr>)
                    else (Inl (Failure ''Failed to save embedding''), self2)))"

definition get_all_names :: "'e embedding_database \<Rightarrow> string list \<times> 'e embedding_database" where
  "get_all_names self =
     (let self' = snd (load_embeddings self) in (map fst (embeddings self'), self'))"

definition get_embedding ::
  "'e embedding_database \<Rightarrow> string \<Rightarrow> 'e option \<times> 'e embedding_database" where
  "get_embedding self name =
     (let self' = snd (load_embeddings self) in (map_of (embeddings self') (py_strip name), self'))"

definition delete_embedding ::
  "'e embedding_database \<Rightarrow> string \<Rightarrow> (error + bool) \<times> 'e embedding_database" where
  "delete_embedding self name =
     (let self1 = snd (load_embeddings self) in
      if py_strip name \<in> fst ` set (embeddings self1)
      then
        let self2 = self1\<lparr>embeddings := dict_del (embeddings self1) (py_strip name)\<rparr>
        in if writable self2
           then (Inr True, self2\<lparr>embeddings_file := Pickled (embeddings self2)\<rparr>)
           else (Inl OSError, self2)
      else (Inr False, self1))"

definition get_count :: "'e embedding_database \<Rightarrow> nat \<times> 'e embedding_database" where
  "get_count self = (let self' = snd (load_embeddings self) in (length (embeddings self'), self'))"

section \<open>Match engine (\<open>utils/attendance_manager.py\<close>)\<close>

text \<open>
  An \<open>AttendanceManager\<close> is the ledger state together with the matching threshold
  and the embedding database.
\<close>

record 'e attendance_manager = ledger +
  threshold :: real
  db :: "'e embedding_database"

text \<open>
  \<open>compare_embeddings\<close> returns a bare float on one path and a pair on the other.
  The library function \<open>cosine_similarity\<close> is the argument \<open>cs\<close>; floats are
  modelled as reals, and \<open>'e\<close> is the type of embedding vectors of the model's
  dimension.
\<close>

datatype compared = Bare real | DistSim real real

definition compare_embeddings ::
  "('e \<Rightarrow> 'e \<Rightarrow> real) \<Rightarrow> 'e option \<Rightarrow> 'e option \<Rightarrow> compared" where
  "compare_embeddings cs embedding1 embedding2 =
     (case embedding1 of
        None \<Rightarrow> Bare 0
      | Some emb1 \<Rightarrow>
          (case embedding2 of
             None \<Rightarrow> Bare 0
           | Some emb2 \<Rightarrow>
               let similarity = cs emb1 emb2;
                   distance = 1 - similarity
               in DistSim distance similarity))"

text \<open>
  \<open>best_distance\<close> starts as \<open>float('inf')\<close>, written \<open>None\<close> here;
  \<open>below d best\<close> is the test \<open>d < best_distance\<close>.
\<close>

fun below :: "real \<Rightarrow> real option \<Rightarrow> bool" where
  "below d None = True"
| "below d (Some b) = (d < b)"

text \<open>
  The loop of \<open>find_match\<close> over \<open>registered_embeddings.items()\<close>, with the pair
  \<open>(best_match, best_distance)\<close> as its state. Unpacking a bare float into
  \<open>distance, similarity\<close> raises \<open>TypeError\<close>.
\<close>

fun match_loop ::
  "('e \<Rightarrow> 'e \<Rightarrow> real) \<Rightarrow> 'e option \<Rightarrow> (string \<times> 'e) list \<Rightarrow>
   string option \<times> real option \<Rightarrow> error + string option \<times> real option" where
  "match_loop cs query_embedding [] best = Inr best"
| "match_loop cs query_embedding ((name, embedding) # rest) (best_match, best_distance) =
     (case compare_embeddings cs query_embedding (Some embedding) of
        Bare x \<Rightarrow> Inl TypeError
      | DistSim distance similarity \<Rightarrow>
          if below distance best_distance
          then match_loop cs query_embedding rest (Some name, Some distance)
          else match_loop cs query_embedding rest (best_match, best_distance))"

text \<open>
  \<open>find_match(query_embedding, threshold)\<close>. The final test
  \<open>best_match and best_distance < threshold\<close> needs a name that is set and is not the
  empty string, and a finite best distance under the threshold. \<open>None\<close> is the
  result \<open>(None, None)\<close>.
\<close>

definition find_match ::
  "('e \<Rightarrow> 'e \<Rightarrow> real) \<Rightarrow> ('e, 'a) attendance_manager_scheme \<Rightarrow> 'e option \<Rightarrow> real option \<Rightarrow>
   (error + (string \<times> real) option) \<times> ('e, 'a) attendance_manager_scheme" where
  "find_match cs self query_embedding threshold_arg =
     (let thr = (case threshold_arg of None \<Rightarrow> threshold self | Some t \<Rightarrow> t);
          registered_embeddings = fst (load_embeddings (db self));
          self' = self\<lparr>db := snd (load_embeddings (db self))\<rparr>
      in if length registered_embeddings = 0 then (Inr None, self')
         else
           (case match_loop cs query_embedding registered_embeddings (None, None) of
              Inl err \<Rightarrow> (Inl err, self')
            | Inr (best_match, best_distance) \<Rightarrow>
                (case best_match of
                   None \<Rightarrow> (Inr None, self')
                 | Some name \<Rightarrow>
                     (case best_distance of
                        None \<Rightarrow> (Inr None, self')
                      | Some d \<Rightarrow>
                          if name \<noteq> [] \<and> d < thr then (Inr (Some (name, d)), self')
                          else (Inr None, self')))))"

section \<open>Attendance log (\<open>get_attendance_log\<close>)\<close>

text \<open>
  \<open>Series.str.contains(pat, case=False, na=False)\<close> reads \<open>pat\<close> as a regular
  expression (its \<open>regex\<close> argument is true unless given): it compiles \<open>pat\<close> with
  \<open>re.IGNORECASE\<close> once and keeps the rows in which the compiled pattern is found
  somewhere in the name.

  The regular expressions are modelled in two parts. A pattern made of ordinary
  characters and dots is matched here: an ordinary character stands for itself up to
  letter case, a dot for any character but the line feed. A pattern with any other
  special character of the \<open>re\<close> syntax is handed to \<open>other\<close>, the rest of the library,
  which compiles it to a search or raises \<open>re.error\<close>.
\<close>

definition py_lower :: "char \<Rightarrow> char" where
  "py_lower c =
     (let n = (of_char c :: nat)
      in if (65 \<le> n \<and> n \<le> 90) \<or> (192 \<le> n \<and> n \<le> 222 \<and> n \<noteq> 215)
         then char_of (n + 32) else c)"

definition re_special :: "char \<Rightarrow> bool" where
  "re_special c = (c \<in> set ''^$*+?{}[]|()'' \<or> (of_char c :: nat) = 92)"

fun match_here :: "string \<Rightarrow> string \<Rightarrow> bool" where
  "match_here [] s = True"
| "match_here (p # ps) [] = False"
| "match_here (p # ps) (c # cs) =
     ((if p = CHR ''.'' then (of_char c :: nat) \<noteq> 10 else py_lower p = py_lower c) \<and>
      match_here ps cs)"

fun re_search :: "string \<Rightarrow> string \<Rightarrow> bool" where
  "re_search pat [] = match_here pat []"
| "re_search pat (c # cs) = (match_here pat (c # cs) \<or> re_search pat cs)"

definition re_compile_ignorecase ::
  "(string \<Rightarrow> error + (string \<Rightarrow> bool)) \<Rightarrow> string \<Rightarrow> error + (string \<Rightarrow> bool)" where
  "re_compile_ignorecase other pat =
     (if list_ex re_special pat then other pat else Inr (re_search pat))"

text \<open>
  \<open>sort_values(by=['Date', 'Time'], ascending=False)\<close>: the rows in descending
  order of the pair of strings, strings compared character by character. Rows with
  equal keys keep their order.
\<close>

fun insort_desc :: "('a \<Rightarrow> 'k::linorder) \<Rightarrow> 'a \<Rightarrow> 'a list \<Rightarrow> 'a list" where
  "insort_desc k x [] = [x]"
| "insort_desc k x (y # ys) = (if k y \<le> k x then x # y # ys else y # insort_desc k x ys)"

definition sort_values :: "('a \<Rightarrow> 'k::linorder) \<Rightarrow> 'a list \<Rightarrow> 'a list" where
  "sort_values k df = foldr (insort_desc k) df []"

definition date_time :: "attendance_record \<Rightarrow> string \<times> string" where
  "date_time r = (Date r, Time r)"

text \<open>
  The row mask \<open>df['Name'].str.contains(pat, case=False, na=False)\<close>, for the
  compiled search \<open>found\<close>: with \<open>na=False\<close> a name that is read as no string
  does not pass.
\<close>

definition str_contains ::
  "csv_reader \<Rightarrow> string list \<Rightarrow> (string \<Rightarrow> bool) \<Rightarrow> attendance_record \<Rightarrow> bool" where
  "str_contains reader column found r =
     (case read_cell reader column (Name r) of None \<Rightarrow> False | Some s \<Rightarrow> found s)"

text \<open>
  \<open>get_attendance_log(date_filter, name_filter)\<close>. \<open>if date_filter:\<close> and
  \<open>if name_filter:\<close> skip a filter that is \<open>None\<close> or the empty string. In
  \<open>df['Name'].str.contains(...)\<close> the accessor \<open>.str\<close> is reached first, on the
  rows left by the date filter, and raises \<open>AttributeError\<close> when the column holds
  no strings; then the pattern is compiled.
\<close>

definition get_attendance_log ::
  "(string \<Rightarrow> error + (string \<Rightarrow> bool)) \<Rightarrow> csv_reader \<Rightarrow> 'a ledger_scheme \<Rightarrow>
   string option \<Rightarrow> string option \<Rightarrow> error + attendance_record list" where
  "get_attendance_log other reader self date_filter name_filter =
     (case attendance_csv self of
        None \<Rightarrow> Inr []
      | Some df \<Rightarrow>
          if length df = 0 then Inr df
          else
            let df1 = (case date_filter of
                         None \<Rightarrow> df
                       | Some d \<Rightarrow> if d = [] then df else filter (\<lambda>r. Date r = d) df)
            in (case name_filter of
                  None \<Rightarrow> Inr (sort_values date_time df1)
                | Some pat \<Rightarrow>
                    if pat = [] then Inr (sort_values date_time df1)
                    else if \<not> str_accessor reader (map Name df) (map Name df1)
                    then Inl AttributeError
                    else
                      (case re_compile_ignorecase other pat of
                         Inl err \<Rightarrow> Inl err
                       | Inr found \<Rightarrow>
                           Inr (sort_values date_time
                                  (filter (str_contains reader (map Name df) found) df1)))))"

text \<open>
  The claim's reading of the name filter, for comparison with \<open>re_search\<close>: the
  name contains the filter as a substring, letter case ignored.
\<close>

definition contains_nocase :: "string \<Rightarrow> string \<Rightarrow> bool" where
  "contains_nocase sub s =
     list_ex (\<lambda>i. take (length sub) (drop i (map py_lower s)) = map py_lower sub)
       [0..<Suc (length s)]"

section \<open>Face locator (\<open>utils/face_detector.py\<close>)\<close>

text \<open>
  A detected rectangle \<open>(x, y, w, h)\<close>. The key of the selection is
  \<open>rect[2] * rect[3]\<close>; widths and heights are bounded by the sides of the frame, so
  the product is taken in the integers.
\<close>

type_synonym rect = "int \<times> int \<times> int \<times> int"

definition area :: "rect \<Rightarrow> int" where
  "area rect = (case rect of (x, y, w, h) \<Rightarrow> w * h)"

text \<open>
  Python's \<open>max(iterable, key=...)\<close>: the first item is the candidate, and a later
  item replaces it only when its key is strictly greater. On an empty iterable it
  raises \<open>ValueError\<close>.
\<close>

fun max_loop :: "('a \<Rightarrow> int) \<Rightarrow> 'a \<Rightarrow> 'a list \<Rightarrow> 'a" where
  "max_loop key best [] = best"
| "max_loop key best (x # xs) =
     (if key x > key best then max_loop key x xs else max_loop key best xs)"

definition py_max :: "('a \<Rightarrow> int) \<Rightarrow> 'a list \<Rightarrow> error + 'a" where
  "py_max key xs =
     (case xs of
        [] \<Rightarrow> Inl (ValueError ''max() arg is an empty sequence'')
      | x # rest \<Rightarrow> Inr (max_loop key x rest))"

text \<open>
  A slice \<open>xs[a:b]\<close> with Python's clipping of the bounds, and the crop
  \<open>frame[y:y+h, x:x+w]\<close> of a frame given as rows of pixels.
\<close>

definition py_slice :: "'a list \<Rightarrow> int \<Rightarrow> int \<Rightarrow> 'a list" where
  "py_slice xs a b =
     (let n = int (length xs);
          lo = (if a < 0 then max (a + n) 0 else min a n);
          hi = (if b < 0 then max (b + n) 0 else min b n)
      in take (nat (hi - lo)) (drop (nat lo) xs))"

definition crop :: "'px list list \<Rightarrow> rect \<Rightarrow> 'px list list" where
  "crop frame rect =
     (case rect of (x, y, w, h) \<Rightarrow> map (\<lambda>row. py_slice row x (x + w)) (py_slice frame y (y + h)))"

text \<open>
  \<open>detect_face(frame)\<close>. The cascade (grey conversion and \<open>detectMultiScale\<close> with
  its fixed settings) is the argument \<open>cascade\<close>; \<open>cv2.resize\<close> to 160 by 160 is the
  argument \<open>resize\<close>, which may raise. \<open>Inr None\<close> is the result \<open>(None, None)\<close>.
\<close>

definition detect_face ::
  "('px list list \<Rightarrow> rect list) \<Rightarrow> ('px list list \<Rightarrow> error + 'img) \<Rightarrow> 'px list list option \<Rightarrow>
   error + ('img \<times> rect) option" where
  "detect_face cascade resize frame =
     (case frame of
        None \<Rightarrow> Inr None
      | Some fr \<Rightarrow>
          let faces = cascade fr in
          if length faces = 0 then Inr None
          else
            (case py_max area faces of
               Inl err \<Rightarrow> Inl err
             | Inr largest_face \<Rightarrow>
                 let face_roi = crop fr largest_face in
                 (case resize face_roi of
                    Inl err \<Rightarrow> Inl err
                  | Inr face_resized \<Rightarrow> Inr (Some (face_resized, largest_face)))))"

section \<open>Example states\<close>

text \<open>
  Concrete inputs for the worked examples below. Embeddings are lists of reals, and the
  similarity of two unit vectors is their dot product.
\<close>

definition dot :: "real list \<Rightarrow> real list \<Rightarrow> real" where
  "dot a b = sum_list (map2 (*) a b)"

definition three_db :: "(real list) embedding_database" where
  "three_db = \<lparr>embeddings_file = Pickled [(''Ann'', [0, 1]), (''Bob'', [1, 0]), (''Cid'', [1, 0])],
                embeddings = [], writable = True, printed = []\<rparr>"

definition desk :: "(real list) attendance_manager" where
  "desk = \<lparr>attendance_csv = Some [], marked_today = {}, threshold = 1 / 2, db = three_db\<rparr>"

definition corrupt_db :: "(real list) embedding_database" where
  "corrupt_db = \<lparr>embeddings_file = Unreadable, embeddings = [(''Ann'', [1, 0])],
                  writable = True, printed = []\<rparr>"

definition small_db :: "(real list) embedding_database" where
  "small_db = \<lparr>embeddings_file = Pickled [(''Ann'', [1, 0])], embeddings = [],
                writable = True, printed = []\<rparr>"

definition bob_row :: attendance_record where
  "bob_row = \<lparr>Name = ''Bob'', Date = ''2024-01-01'', Time = ''09:00:00''\<rparr>"

definition no_re :: "string \<Rightarrow> error + (string \<Rightarrow> bool)" where
  "no_re pat = Inl (Failure ''re.error'')"

definition log_rows :: "attendance_record list" where
  "log_rows =
     [\<lparr>Name = ''Alice'', Date = ''2024-01-01'', Time = ''09:00:00''\<rparr>,
      \<lparr>Name = ''Bob'', Date = ''2024-01-01'', Time = ''09:05:00''\<rparr>,
      \<lparr>Name = ''Khalid'', Date = ''2024-01-02'', Time = ''08:50:00''\<rparr>,
      \<lparr>Name = ''Alice'', Date = ''2024-01-02'', Time = ''08:55:00''\<rparr>]"

definition log_ledger :: ledger where
  "log_ledger = \<lparr>attendance_csv = Some log_rows, marked_today = {}\<rparr>"

definition wide_frame :: "nat list list" where
  "wide_frame = replicate 40 (replicate 40 8)"

definition two_faces :: "nat list list \<Rightarrow> rect list" where
  "two_faces fr = [(5, 5, 20, 20), (0, 0, 30, 30)]"

definition no_faces :: "nat list list \<Rightarrow> rect list" where
  "no_faces fr = []"

definition small_frame :: "nat list list" where
  "small_frame = [[11, 12, 13, 14], [21, 22, 23, 24], [31, 32, 33, 34]]"

definition small_faces :: "nat list list \<Rightarrow> rect list" where
  "small_faces fr = [(0, 0, 1, 1), (1, 1, 2, 2)]"

definition same_size :: "nat list list \<Rightarrow> error + nat list list" where
  "same_size roi = Inr roi"

definition na_ledger :: ledger where
  "na_ledger =
     \<lparr>attendance_csv = Some [\<lparr>Name = ''NA'', Date = ''2024-01-01'', Time = ''09:00:00''\<rparr>],
      marked_today = {}\<rparr>"

section \<open>Properties of the ledger\<close>

lemma mark_attendance_cases:
  "mark_attendance rd m name today t = (False, m) \<or>
   (\<exists>raw. name = Some raw \<and> py_strip raw \<noteq> [] \<and> py_strip raw \<notin> marked_today m \<and>
      (\<not> reads_text rd (map Name (read_csv (attendance_csv m))) (py_strip raw) \<or>
       (py_strip raw, today) \<notin> set (map key_of (read_csv (attendance_csv m)))) \<and>
      mark_attendance rd m name today t =
        (True, m\<lparr>attendance_csv :=
                    Some (read_csv (attendance_csv m) @
                          [\<lparr>Name = py_strip raw, Date = today, Time = t\<rparr>]),
                  marked_today := insert (py_strip raw) (marked_today m)\<rparr>))"
  by (auto simp: mark_attendance_def Let_def read_csv_def read_cell_def key_of_def
      filter_empty_conv split: option.splits if_splits)

lemma step_ledger_ok:
  assumes ok: "ledger_ok m"
    and textual: "\<And>raw d t column. c = Mark (Some raw) d t \<Longrightarrow> py_strip raw \<in> set column \<Longrightarrow>
                    reads_text rd column (py_strip raw)"
  shows "ledger_ok (step rd m c)"
proof (cases c)
  case (Mark name today t)
  from mark_attendance_cases [of rd m name today t] show ?thesis
  proof
    assume "mark_attendance rd m name today t = (False, m)"
    with ok Mark show ?thesis by simp
  next
    assume "\<exists>raw. name = Some raw \<and> py_strip raw \<noteq> [] \<and> py_strip raw \<notin> marked_today m \<and>
      (\<not> reads_text rd (map Name (read_csv (attendance_csv m))) (py_strip raw) \<or>
       (py_strip raw, today) \<notin> set (map key_of (read_csv (attendance_csv m)))) \<and>
      mark_attendance rd m name today t =
        (True, m\<lparr>attendance_csv :=
                    Some (read_csv (attendance_csv m) @
                          [\<lparr>Name = py_strip raw, Date = today, Time = t\<rparr>]),
                  marked_today := insert (py_strip raw) (marked_today m)\<rparr>)"
    then obtain raw where
      name: "name = Some raw" and
      new: "\<not> reads_text rd (map Name (read_csv (attendance_csv m))) (py_strip raw) \<or>
            (py_strip raw, today) \<notin> set (map key_of (read_csv (attendance_csv m)))" and
      eq: "mark_attendance rd m name today t =
        (True, m\<lparr>attendance_csv :=
                    Some (read_csv (attendance_csv m) @
                          [\<lparr>Name = py_strip raw, Date = today, Time = t\<rparr>]),
                  marked_today := insert (py_strip raw) (marked_today m)\<rparr>)"
      by blast
    have "(py_strip raw, today) \<notin> set (map key_of (read_csv (attendance_csv m)))"
    proof
      assume stored: "(py_strip raw, today) \<in> set (map key_of (read_csv (attendance_csv m)))"
      then have "py_strip raw \<in> set (map Name (read_csv (attendance_csv m)))"
        by (auto simp: key_of_def)
      with textual Mark name
      have "reads_text rd (map Name (read_csv (attendance_csv m))) (py_strip raw)" by blast
      with new stored show False by simp
    qed
    with ok show ?thesis
      by (simp add: Mark eq ledger_ok_def read_csv_def key_of_def)
  qed
next
  case Reset
  with ok show ?thesis by (simp add: reset_session_def ledger_ok_def)
qed

text \<open>
  As long as every marked name is read back as text in whatever column holds it, the
  invariant is kept along every run of \<open>mark_attendance\<close> and \<open>reset_session\<close> calls,
  whatever the clock reads at each call.
\<close>

lemma ledger_invariant_text_names:
  assumes "ledger_ok m"
    and "\<And>raw d t column. Mark (Some raw) d t \<in> set cs \<Longrightarrow> py_strip raw \<in> set column \<Longrightarrow>
           reads_text rd column (py_strip raw)"
  shows "ledger_ok (run_calls rd m cs)"
  using assms
proof (induction cs arbitrary: m)
  case Nil
  then show ?case by simp
next
  case (Cons c cs)
  have here: "reads_text rd column (py_strip raw)"
    if "c = Mark (Some raw) d t" and "py_strip raw \<in> set column" for raw d t column
    using that Cons.prems(2) [of raw d t column] by simp
  have later: "reads_text rd column (py_strip raw)"
    if "Mark (Some raw) d t \<in> set cs" and "py_strip raw \<in> set column" for raw d t column
    using that Cons.prems(2) [of raw d t column] by simp
  from Cons.prems(1) here have "ledger_ok (step rd m c)"
    by (rule step_ledger_ok)
  then have "ledger_ok (run_calls rd (step rd m c) cs)"
    using later by (rule Cons.IH)
  then show ?case by simp
qed

text \<open>
  A call changes the table only by appending one row for the stripped name and
  today's date, and only when that name is not in \<open>marked_today\<close> and the check of the
  stored rows found nothing.
\<close>

lemma mark_attendance_appends:
  assumes "read_csv (attendance_csv (snd (mark_attendance rd s name today t))) \<noteq>
           read_csv (attendance_csv s)"
  shows "\<exists>raw. name = Some raw \<and> py_strip raw \<notin> marked_today s \<and>
          (\<not> reads_text rd (map Name (read_csv (attendance_csv s))) (py_strip raw) \<or>
           (py_strip raw, today) \<notin> set (map key_of (read_csv (attendance_csv s)))) \<and>
          read_csv (attendance_csv (snd (mark_attendance rd s name today t))) =
            read_csv (attendance_csv s) @ [\<lparr>Name = py_strip raw, Date = today, Time = t\<rparr>]"
  using mark_attendance_cases [of rd s name today t] assms
  by (auto simp: read_csv_def)

text \<open>
  Claim C1 fails on the code for a name that the CSV reader takes as a missing value.
  The table holds one row, for the name \<open>NA\<close> on 2024-01-01, so no two rows share a
  name and date. A call for \<open>NA\<close> on the same day in a new session reads the stored
  name back as \<open>NaN\<close>, finds no stored row for \<open>NA\<close>, appends a second row for
  \<open>NA\<close> on 2024-01-01 and returns \<open>True\<close>.
\<close>

theorem missing_value_name_duplicate:
  "ledger_ok na_ledger \<and>
   mark_attendance default_reader na_ledger (Some ''NA'') ''2024-01-01'' ''10:30:00'' =
     (True,
      \<lparr>attendance_csv =
         Some [\<lparr>Name = ''NA'', Date = ''2024-01-01'', Time = ''09:00:00''\<rparr>,
               \<lparr>Name = ''NA'', Date = ''2024-01-01'', Time = ''10:30:00''\<rparr>],
       marked_today = {''NA''}\<rparr>) \<and>
   \<not> ledger_ok
        (snd (mark_attendance default_reader na_ledger (Some ''NA'') ''2024-01-01''
                ''10:30:00''))"
proof -
  have strip: "py_strip ''NA'' = ''NA''"
    by (simp add: py_strip_def py_isspace_def)
  have na: "read_cell default_reader [''NA''] ''NA'' = None"
    by (simp add: read_cell_def default_reader_def default_na_values_def)
  have ok: "ledger_ok na_ledger"
    by (simp add: ledger_ok_def na_ledger_def read_csv_def)
  have run: "mark_attendance default_reader na_ledger (Some ''NA'') ''2024-01-01'' ''10:30:00'' =
     (True,
      \<lparr>attendance_csv =
         Some [\<lparr>Name = ''NA'', Date = ''2024-01-01'', Time = ''09:00:00''\<rparr>,
               \<lparr>Name = ''NA'', Date = ''2024-01-01'', Time = ''10:30:00''\<rparr>],
       marked_today = {''NA''}\<rparr>)"
    by (simp add: mark_attendance_def strip na na_ledger_def read_csv_def Let_def)
  have "\<not> ledger_ok
      \<lparr>attendance_csv =
         Some [\<lparr>Name = ''NA'', Date = ''2024-01-01'', Time = ''09:00:00''\<rparr>,
               \<lparr>Name = ''NA'', Date = ''2024-01-01'', Time = ''10:30:00''\<rparr>],
       marked_today = {''NA''}\<rparr>"
    by (simp add: ledger_ok_def read_csv_def key_of_def)
  with ok run show ?thesis by simp
qed

lemma mark_attendance_new:
  assumes "py_strip raw \<noteq> []" and "py_strip raw \<notin> marked_today m"
    and "(py_strip raw, d) \<notin> set (map key_of (read_csv (attendance_csv m)))"
  shows "mark_attendance rd m (Some raw) d t =
    (True, m\<lparr>attendance_csv :=
                Some (read_csv (attendance_csv m) @ [\<lparr>Name = py_strip raw, Date = d, Time = t\<rparr>]),
              marked_today := insert (py_strip raw) (marked_today m)\<rparr>)"
proof (cases "attendance_csv m")
  case None
  with assms(1,2) show ?thesis
    by (simp add: mark_attendance_def Let_def read_csv_def)
next
  case (Some df)
  with assms(3)
  have "filter (\<lambda>r. read_cell rd (map Name df) (Name r) = Some (py_strip raw) \<and> Date r = d) df
        = []"
    by (force simp: filter_empty_conv read_csv_def read_cell_def key_of_def image_iff
        split: if_splits)
  with Some assms(1,2) show ?thesis
    by (simp add: mark_attendance_def Let_def read_csv_def)
qed

lemma mark_attendance_in_session:
  "py_strip raw \<in> marked_today m \<Longrightarrow> mark_attendance rd m (Some raw) d t = (False, m)"
  by (simp add: mark_attendance_def Let_def)

lemma mark_attendance_in_store:
  assumes "attendance_csv m = Some df" and "r \<in> set df"
    and "read_cell rd (map Name df) (Name r) = Some (py_strip raw)" and "Date r = d"
  shows "mark_attendance rd m (Some raw) d t = (False, m)"
proof -
  from assms
  have "filter (\<lambda>r. read_cell rd (map Name df) (Name r) = Some (py_strip raw) \<and> Date r = d) df
        \<noteq> []"
    by (auto simp: filter_empty_conv)
  moreover from assms have "df \<noteq> []" by auto
  ultimately show ?thesis using assms(1)
    by (simp add: mark_attendance_def Let_def)
qed

text \<open>
  Claim C2. For a name that is not blank after stripping, not yet in \<open>marked_today\<close>
  and without a stored row for the date \<open>d\<close>, and for every CSV reader: the first
  call on \<open>d\<close> returns \<open>True\<close> and the second call on \<open>d\<close> returns \<open>False\<close>.
  After a \<open>reset_session\<close>, a call on a different date \<open>d2\<close> that has no stored row
  returns \<open>True\<close> again.
\<close>

theorem mark_attendance_idempotent:
  assumes nonblank: "py_strip raw \<noteq> []"
    and unseen: "py_strip raw \<notin> marked_today m"
    and unmarked: "(py_strip raw, d) \<notin> set (map key_of (read_csv (attendance_csv m)))"
  shows "fst (mark_attendance rd m (Some raw) d t1) = True \<and>
         fst (mark_attendance rd (snd (mark_attendance rd m (Some raw) d t1)) (Some raw) d t2)
           = False \<and>
         (d2 \<noteq> d \<and> (py_strip raw, d2) \<notin> set (map key_of (read_csv (attendance_csv m))) \<longrightarrow>
            fst (mark_attendance rd (reset_session (snd (mark_attendance rd m (Some raw) d t1)))
                   (Some raw) d2 t2) = True)"
proof -
  let ?row = "\<lparr>Name = py_strip raw, Date = d, Time = t1\<rparr>"
  let ?m1 = "m\<lparr>attendance_csv := Some (read_csv (attendance_csv m) @ [?row]),
               marked_today := insert (py_strip raw) (marked_today m)\<rparr>"
  have first: "mark_attendance rd m (Some raw) d t1 = (True, ?m1)"
    using assms by (rule mark_attendance_new)
  have second: "mark_attendance rd ?m1 (Some raw) d t2 = (False, ?m1)"
    by (rule mark_attendance_in_session) simp
  have third: "fst (mark_attendance rd (reset_session ?m1) (Some raw) d2 t2) = True"
    if "d2 \<noteq> d" and "(py_strip raw, d2) \<notin> set (map key_of (read_csv (attendance_csv m)))"
  proof -
    have "mark_attendance rd (reset_session ?m1) (Some raw) d2 t2 =
      (True, (reset_session ?m1)\<lparr>attendance_csv :=
                Some (read_csv (attendance_csv (reset_session ?m1)) @
                  [\<lparr>Name = py_strip raw, Date = d2, Time = t2\<rparr>]),
              marked_today := insert (py_strip raw) (marked_today (reset_session ?m1))\<rparr>)"
      using nonblank that
      by (intro mark_attendance_new) (auto simp: reset_session_def read_csv_def key_of_def)
    then show ?thesis by simp
  qed
  from first second third show ?thesis by simp
qed

theorem mark_attendance_idempotent_witness:
  "py_strip ''Alice'' \<noteq> [] \<and> py_strip ''Alice'' \<notin> marked_today fresh_ledger \<and>
   (py_strip ''Alice'', ''2024-01-01'') \<notin> set (map key_of (read_csv (attendance_csv fresh_ledger))) \<and>
   ''2024-01-02'' \<noteq> ''2024-01-01'' \<and>
   fst (mark_attendance default_reader fresh_ledger (Some ''Alice'') ''2024-01-01'' ''09:00:00'')
     = True \<and>
   fst (mark_attendance default_reader
          (snd (mark_attendance default_reader fresh_ledger (Some ''Alice'') ''2024-01-01''
                  ''09:00:00''))
          (Some ''Alice'') ''2024-01-01'' ''09:00:07'') = False \<and>
   fst (mark_attendance default_reader
          (reset_session (snd (mark_attendance default_reader fresh_ledger (Some ''Alice'')
                                 ''2024-01-01'' ''09:00:00'')))
          (Some ''Alice'') ''2024-01-02'' ''09:00:07'') = True"
proof -
  have strip: "py_strip ''Alice'' = ''Alice''"
    by (simp add: py_strip_def py_isspace_def)
  have a: "py_strip ''Alice'' \<noteq> []" by (simp add: strip)
  have b: "py_strip ''Alice'' \<notin> marked_today fresh_ledger" by (simp add: fresh_ledger_def)
  have c: "(py_strip ''Alice'', d) \<notin> set (map key_of (read_csv (attendance_csv fresh_ledger)))" for d
    by (simp add: fresh_ledger_def read_csv_def)
  have e: "''2024-01-02'' \<noteq> ''2024-01-01''" by simp
  from mark_attendance_idempotent [OF a b c, of default_reader "''2024-01-01''" "''09:00:00''"
      "''09:00:07''" "''2024-01-02''"] a b c e
  show ?thesis by blast
qed

text \<open>
  Claim C4, as stated, fails: with a stored row for Alice and today's date and an empty
  \<open>marked_today\<close>, the call returns \<open>False\<close> and Alice is still not in
  \<open>marked_today\<close> afterwards.
\<close>

theorem stored_record_counterexample:
  "fst (mark_attendance default_reader
         \<lparr>attendance_csv = Some [\<lparr>Name = ''Alice'', Date = ''2024-01-01'', Time = ''09:00:00''\<rparr>],
          marked_today = {}\<rparr>
         (Some ''Alice'') ''2024-01-01'' ''10:30:00'') = False \<and>
   ''Alice'' \<notin> marked_today (snd (mark_attendance default_reader
         \<lparr>attendance_csv = Some [\<lparr>Name = ''Alice'', Date = ''2024-01-01'', Time = ''09:00:00''\<rparr>],
          marked_today = {}\<rparr>
         (Some ''Alice'') ''2024-01-01'' ''10:30:00''))"
proof -
  have strip: "py_strip ''Alice'' = ''Alice''"
    by (simp add: py_strip_def py_isspace_def)
  have cell: "read_cell default_reader [''Alice''] ''Alice'' = Some ''Alice''"
    by (simp add: read_cell_def default_reader_def typed_column_def digits_def
        default_na_values_def)
  show ?thesis by (simp add: mark_attendance_def strip cell Let_def)
qed

text \<open>
  Claim C4, amended. When the name is not in \<open>marked_today\<close> and the check of the
  stored rows finds a row for it (a row for today's date whose name the reader
  returns as the stripped name), \<open>mark_attendance\<close> returns \<open>False\<close> and leaves the
  state as it was: nothing is appended and the name is not added to
  \<open>marked_today\<close>.
\<close>

theorem stored_record_already_marked:
  assumes "py_strip raw \<notin> marked_today m"
    and "attendance_csv m = Some df" and "r \<in> set df"
    and "read_cell rd (map Name df) (Name r) = Some (py_strip raw)" and "Date r = today"
  shows "mark_attendance rd m (Some raw) today t = (False, m) \<and>
         py_strip raw \<notin> marked_today (snd (mark_attendance rd m (Some raw) today t))"
proof -
  have "mark_attendance rd m (Some raw) today t = (False, m)"
    using assms(2-5) by (rule mark_attendance_in_store)
  with assms(1) show ?thesis by simp
qed

theorem stored_record_already_marked_witness:
  "py_strip '' Alice'' \<notin> marked_today
      \<lparr>attendance_csv = Some [\<lparr>Name = ''Alice'', Date = ''2024-01-01'', Time = ''09:00:00''\<rparr>],
       marked_today = {''Bob''}\<rparr> \<and>
   read_cell default_reader [''Alice''] ''Alice'' = Some (py_strip '' Alice'') \<and>
   mark_attendance default_reader
      \<lparr>attendance_csv = Some [\<lparr>Name = ''Alice'', Date = ''2024-01-01'', Time = ''09:00:00''\<rparr>],
       marked_today = {''Bob''}\<rparr>
      (Some '' Alice'') ''2024-01-01'' ''10:30:00'' =
     (False,
      \<lparr>attendance_csv = Some [\<lparr>Name = ''Alice'', Date = ''2024-01-01'', Time = ''09:00:00''\<rparr>],
       marked_today = {''Bob''}\<rparr>)"
proof -
  let ?r = "\<lparr>Name = ''Alice'', Date = ''2024-01-01'', Time = ''09:00:00''\<rparr>"
  let ?m = "\<lparr>attendance_csv = Some [?r], marked_today = {''Bob''}\<rparr>"
  have strip: "py_strip '' Alice'' = ''Alice''"
    by (simp add: py_strip_def py_isspace_def)
  have a: "py_strip '' Alice'' \<notin> marked_today ?m" by (simp add: strip)
  have b: "attendance_csv ?m = Some [?r]" by simp
  have c: "?r \<in> set [?r]" by simp
  have d: "read_cell default_reader (map Name [?r]) (Name ?r) = Some (py_strip '' Alice'')"
    by (simp add: strip read_cell_def default_reader_def typed_column_def digits_def
        default_na_values_def)
  have e: "Date ?r = ''2024-01-01''" by simp
  from stored_record_already_marked [OF a b c d e, of "''10:30:00''"] a d
  show ?thesis by simp
qed

section \<open>Properties of the match engine\<close>

lemma match_loop_query:
  "match_loop cs (Some q) xs (bm, bd) = Inr (bm, bd) \<and> (\<forall>x \<in> set xs. \<not> below (1 - cs q (snd x)) bd) \<or>
   (\<exists>pre n e post. xs = pre @ (n, e) # post \<and> below (1 - cs q e) bd \<and>
      (\<forall>x \<in> set pre. 1 - cs q e < 1 - cs q (snd x)) \<and>
      (\<forall>x \<in> set post. 1 - cs q e \<le> 1 - cs q (snd x)) \<and>
      match_loop cs (Some q) xs (bm, bd) = Inr (Some n, Some (1 - cs q e)))"
proof (induction xs arbitrary: bm bd)
  case Nil
  show ?case by simp
next
  case (Cons x xs)
  obtain n0 e0 where x: "x = (n0, e0)" by (cases x)
  let ?d0 = "1 - cs q e0"
  show ?case
  proof (cases "below ?d0 bd")
    case True
    then have step: "match_loop cs (Some q) (x # xs) (bm, bd) =
        match_loop cs (Some q) xs (Some n0, Some ?d0)"
      by (simp add: x compare_embeddings_def Let_def)
    from Cons.IH [of "Some n0" "Some ?d0"] show ?thesis
    proof
      assume "match_loop cs (Some q) xs (Some n0, Some ?d0) = Inr (Some n0, Some ?d0) \<and>
        (\<forall>y \<in> set xs. \<not> below (1 - cs q (snd y)) (Some ?d0))"
      then have "x # xs = [] @ (n0, e0) # xs \<and> below ?d0 bd \<and>
        (\<forall>y \<in> set []. ?d0 < 1 - cs q (snd y)) \<and>
        (\<forall>y \<in> set xs. ?d0 \<le> 1 - cs q (snd y)) \<and>
        match_loop cs (Some q) (x # xs) (bm, bd) = Inr (Some n0, Some ?d0)"
        using True step x by (auto simp: not_less)
      then show ?thesis by blast
    next
      assume "\<exists>pre n e post. xs = pre @ (n, e) # post \<and> below (1 - cs q e) (Some ?d0) \<and>
        (\<forall>y \<in> set pre. 1 - cs q e < 1 - cs q (snd y)) \<and>
        (\<forall>y \<in> set post. 1 - cs q e \<le> 1 - cs q (snd y)) \<and>
        match_loop cs (Some q) xs (Some n0, Some ?d0) = Inr (Some n, Some (1 - cs q e))"
      then obtain pre n e post where
        xs: "xs = pre @ (n, e) # post" and lt: "1 - cs q e < ?d0" and
        pre: "\<forall>y \<in> set pre. 1 - cs q e < 1 - cs q (snd y)" and
        post: "\<forall>y \<in> set post. 1 - cs q e \<le> 1 - cs q (snd y)" and
        res: "match_loop cs (Some q) xs (Some n0, Some ?d0) = Inr (Some n, Some (1 - cs q e))"
        by auto
      from True lt have "below (1 - cs q e) bd" by (cases bd) auto
      with xs lt pre post res step x
      have "x # xs = (x # pre) @ (n, e) # post \<and> below (1 - cs q e) bd \<and>
        (\<forall>y \<in> set (x # pre). 1 - cs q e < 1 - cs q (snd y)) \<and>
        (\<forall>y \<in> set post. 1 - cs q e \<le> 1 - cs q (snd y)) \<and>
        match_loop cs (Some q) (x # xs) (bm, bd) = Inr (Some n, Some (1 - cs q e))"
        by auto
      then show ?thesis by blast
    qed
  next
    case False
    then have step: "match_loop cs (Some q) (x # xs) (bm, bd) = match_loop cs (Some q) xs (bm, bd)"
      by (simp add: x compare_embeddings_def Let_def)
    from Cons.IH [of bm bd] show ?thesis
    proof
      assume "match_loop cs (Some q) xs (bm, bd) = Inr (bm, bd) \<and>
        (\<forall>y \<in> set xs. \<not> below (1 - cs q (snd y)) bd)"
      with False step x show ?thesis by auto
    next
      assume "\<exists>pre n e post. xs = pre @ (n, e) # post \<and> below (1 - cs q e) bd \<and>
        (\<forall>y \<in> set pre. 1 - cs q e < 1 - cs q (snd y)) \<and>
        (\<forall>y \<in> set post. 1 - cs q e \<le> 1 - cs q (snd y)) \<and>
        match_loop cs (Some q) xs (bm, bd) = Inr (Some n, Some (1 - cs q e))"
      then obtain pre n e post where
        xs: "xs = pre @ (n, e) # post" and lt: "below (1 - cs q e) bd" and
        pre: "\<forall>y \<in> set pre. 1 - cs q e < 1 - cs q (snd y)" and
        post: "\<forall>y \<in> set post. 1 - cs q e \<le> 1 - cs q (snd y)" and
        res: "match_loop cs (Some q) xs (bm, bd) = Inr (Some n, Some (1 - cs q e))"
        by auto
      from False lt have "1 - cs q e < ?d0" by (cases bd) auto
      with xs lt pre post res step x
      have "x # xs = (x # pre) @ (n, e) # post \<and> below (1 - cs q e) bd \<and>
        (\<forall>y \<in> set (x # pre). 1 - cs q e < 1 - cs q (snd y)) \<and>
        (\<forall>y \<in> set post. 1 - cs q e \<le> 1 - cs q (snd y)) \<and>
        match_loop cs (Some q) (x # xs) (bm, bd) = Inr (Some n, Some (1 - cs q e))"
        by auto
      then show ?thesis by blast
    qed
  qed
qed

lemma match_loop_first_min:
  assumes "xs \<noteq> []"
  shows "\<exists>pre n e post. xs = pre @ (n, e) # post \<and>
      (\<forall>x \<in> set pre. 1 - cs q e < 1 - cs q (snd x)) \<and>
      (\<forall>x \<in> set post. 1 - cs q e \<le> 1 - cs q (snd x)) \<and>
      match_loop cs (Some q) xs (None, None) = Inr (Some n, Some (1 - cs q e))"
proof -
  from assms have "\<not> (\<forall>x \<in> set xs. \<not> below (1 - cs q (snd x)) None)"
    by (cases xs) force+
  with match_loop_query [of cs q xs None None] show ?thesis by blast
qed

text \<open>
  Claim C3. On a registry whose names are non-empty (as \<open>save_embedding\<close> writes
  them) and a query that is present, \<open>find_match\<close> scans every entry and settles on
  the first entry of least cosine distance: every entry before it is strictly farther
  and every entry after it is at least as far. It returns that entry's name and
  distance when the distance is strictly under the threshold in force and
  \<open>(None, None)\<close> otherwise. On an empty registry it returns \<open>(None, None)\<close> for
  every query and every threshold.
\<close>

theorem find_match_nearest:
  assumes names: "\<forall>x \<in> set (fst (load_embeddings (db self))). fst x \<noteq> []"
  shows "(fst (load_embeddings (db self)) = [] \<longrightarrow>
            fst (find_match cs self query thr_arg) = Inr None) \<and>
         (fst (load_embeddings (db self)) \<noteq> [] \<longrightarrow>
            (\<exists>pre n e post.
               fst (load_embeddings (db self)) = pre @ (n, e) # post \<and>
               (\<forall>x \<in> set pre. 1 - cs q e < 1 - cs q (snd x)) \<and>
               (\<forall>x \<in> set post. 1 - cs q e \<le> 1 - cs q (snd x)) \<and>
               fst (find_match cs self (Some q) thr_arg) =
                 Inr (if 1 - cs q e < (case thr_arg of None \<Rightarrow> threshold self | Some t \<Rightarrow> t)
                      then Some (n, 1 - cs q e) else None)))"
proof (intro conjI impI)
  assume "fst (load_embeddings (db self)) = []"
  then show "fst (find_match cs self query thr_arg) = Inr None"
    by (simp add: find_match_def Let_def)
next
  let ?reg = "fst (load_embeddings (db self))"
  assume ne: "?reg \<noteq> []"
  from match_loop_first_min [OF ne, of cs q] obtain pre n e post where
    reg: "?reg = pre @ (n, e) # post" and
    pre: "\<forall>x \<in> set pre. 1 - cs q e < 1 - cs q (snd x)" and
    post: "\<forall>x \<in> set post. 1 - cs q e \<le> 1 - cs q (snd x)" and
    res: "match_loop cs (Some q) ?reg (None, None) = Inr (Some n, Some (1 - cs q e))"
    by blast
  from names reg have "n \<noteq> []" by auto
  with ne res have "fst (find_match cs self (Some q) thr_arg) =
      Inr (if 1 - cs q e < (case thr_arg of None \<Rightarrow> threshold self | Some t \<Rightarrow> t) then Some (n, 1 - cs q e) else None)"
    by (simp add: find_match_def Let_def)
  with reg pre post show "\<exists>pre n e post.
               ?reg = pre @ (n, e) # post \<and>
               (\<forall>x \<in> set pre. 1 - cs q e < 1 - cs q (snd x)) \<and>
               (\<forall>x \<in> set post. 1 - cs q e \<le> 1 - cs q (snd x)) \<and>
               fst (find_match cs self (Some q) thr_arg) =
                 Inr (if 1 - cs q e < (case thr_arg of None \<Rightarrow> threshold self | Some t \<Rightarrow> t)
                      then Some (n, 1 - cs q e) else None)"
    by blast
qed

theorem find_match_nearest_witness:
  "fst (load_embeddings (db desk)) = [(''Ann'', [0, 1]), (''Bob'', [1, 0]), (''Cid'', [1, 0])] \<and>
   ''Ann'' \<noteq> [] \<and> ''Bob'' \<noteq> [] \<and> ''Cid'' \<noteq> [] \<and>
   1 - dot [1, 0] [1, 0] < 1 - dot [1, 0] [0, 1] \<and>
   fst (find_match dot desk (Some [1, 0]) None) = Inr (Some (''Bob'', 0)) \<and>
   fst (find_match dot desk (Some [1, 0]) (Some 0)) = Inr None \<and>
   (\<exists>pre n e post.
      fst (load_embeddings (db desk)) = pre @ (n, e) # post \<and>
      (\<forall>x \<in> set pre. 1 - dot [1, 0] e < 1 - dot [1, 0] (snd x)) \<and>
      (\<forall>x \<in> set post. 1 - dot [1, 0] e \<le> 1 - dot [1, 0] (snd x)) \<and>
      fst (find_match dot desk (Some [1, 0]) None) =
        Inr (if 1 - dot [1, 0] e < (case None of None \<Rightarrow> threshold desk | Some t \<Rightarrow> t)
             then Some (n, 1 - dot [1, 0] e) else None))"
proof -
  have reg: "fst (load_embeddings (db desk)) =
      [(''Ann'', [0, 1]), (''Bob'', [1, 0]), (''Cid'', [1, 0])]"
    by (simp add: desk_def three_db_def load_embeddings_def)
  have names: "\<forall>x \<in> set (fst (load_embeddings (db desk))). fst x \<noteq> []"
    by (simp add: reg)
  have ne: "fst (load_embeddings (db desk)) \<noteq> []" by (simp add: reg)
  have d: "1 - dot [1, 0] [1, 0] < 1 - dot [1, 0] [0, 1]" by (simp add: dot_def)
  have r1: "fst (find_match dot desk (Some [1, 0]) None) = Inr (Some (''Bob'', 0))"
    by (simp add: find_match_def reg compare_embeddings_def dot_def Let_def)
      (simp add: desk_def)
  have r2: "fst (find_match dot desk (Some [1, 0]) (Some 0)) = Inr None"
    by (simp add: find_match_def reg compare_embeddings_def dot_def Let_def)
  from find_match_nearest [OF names, of dot None None "[1, 0]"] ne
  have "\<exists>pre n e post.
      fst (load_embeddings (db desk)) = pre @ (n, e) # post \<and>
      (\<forall>x \<in> set pre. 1 - dot [1, 0] e < 1 - dot [1, 0] (snd x)) \<and>
      (\<forall>x \<in> set post. 1 - dot [1, 0] e \<le> 1 - dot [1, 0] (snd x)) \<and>
      fst (find_match dot desk (Some [1, 0]) None) =
        Inr (if 1 - dot [1, 0] e < (case None of None \<Rightarrow> threshold desk | Some t \<Rightarrow> t)
             then Some (n, 1 - dot [1, 0] e) else None)"
    by blast
  with reg d r1 r2 show ?thesis by simp
qed

text \<open>
  Claim C10. With an absent argument \<open>compare_embeddings\<close> returns the bare float
  \<open>0.0\<close>, not a pair; so \<open>find_match\<close> with an absent query on a registry of at
  least one entry raises \<open>TypeError\<close> at the unpacking in the first round of the loop.
\<close>

theorem find_match_absent_query:
  "compare_embeddings cs None e2 = Bare 0 \<and> compare_embeddings cs e1 None = Bare 0 \<and>
   fst (find_match cs (self\<lparr>db := (db self)\<lparr>embeddings_file := Pickled ((n, e) # reg)\<rparr>\<rparr>) None thr_arg)
     = Inl TypeError"
  by (simp add: compare_embeddings_def find_match_def load_embeddings_def Let_def
      split: option.splits)

theorem find_match_absent_query_witness:
  "compare_embeddings dot None (Some [1, 0]) = Bare 0 \<and>
   fst (load_embeddings (db desk)) \<noteq> [] \<and>
   fst (find_match dot desk None None) = Inl TypeError"
proof -
  have "desk = desk\<lparr>db := (db desk)\<lparr>embeddings_file :=
      Pickled ((''Ann'', [0, 1]) # [(''Bob'', [1, 0]), (''Cid'', [1, 0])])\<rparr>\<rparr>"
    by (simp add: desk_def three_db_def)
  with find_match_absent_query [where cs = dot and ?e2.0 = "Some [1, 0]" and self = desk
      and n = "''Ann''" and e = "[0, 1]" and reg = "[(''Bob'', [1, 0]), (''Cid'', [1, 0])]"
      and thr_arg = None]
  have "compare_embeddings dot None (Some [1, 0]) = Bare 0 \<and>
        fst (find_match dot desk None None) = Inl TypeError"
    by simp
  moreover have "fst (load_embeddings (db desk)) \<noteq> []"
    by (simp add: desk_def three_db_def load_embeddings_def)
  ultimately show ?thesis by simp
qed


section \<open>Properties of the registry\<close>

lemma map_of_dict_set: "map_of (dict_set d k v) = (map_of d)(k \<mapsto> v)"
  by (induction d k v rule: dict_set.induct) (auto simp: fun_eq_iff)

lemma keys_dict_set:
  "map fst (dict_set d k v) = (if k \<in> fst ` set d then map fst d else map fst d @ [k])"
  by (induction d k v rule: dict_set.induct) (auto simp: image_iff)

lemma distinct_dict_set: "distinct (map fst d) \<Longrightarrow> distinct (map fst (dict_set d k v))"
  by (simp add: keys_dict_set)

text \<open>
  Claim C5. \<open>save_embedding\<close> raises \<open>ValueError\<close> and leaves the database as it
  was when the name is absent, empty or white space only, or the embedding is absent.
  For a valid name and embedding it sets the entry under the stripped name in the
  registry just loaded (replacing the value of a present key in place, appending a new
  key), and when the file can be written it returns with the file holding exactly that
  registry. When the write fails it raises and the file is as it was.
\<close>

theorem save_embedding_contract:
  "((name = None \<or> (\<exists>raw. name = Some raw \<and> py_strip raw = []) \<or> embedding = None) \<longrightarrow>
      (\<exists>msg. save_embedding self name embedding = (Inl (ValueError msg), self))) \<and>
   (\<forall>raw e. name = Some raw \<and> py_strip raw \<noteq> [] \<and> embedding = Some e \<longrightarrow>
      (writable self \<longrightarrow>
         fst (save_embedding self name embedding) = Inr () \<and>
         embeddings_file (snd (save_embedding self name embedding)) =
           Pickled (dict_set (fst (load_embeddings self)) (py_strip raw) e) \<and>
         embeddings (snd (save_embedding self name embedding)) =
           dict_set (fst (load_embeddings self)) (py_strip raw) e) \<and>
      (\<not> writable self \<longrightarrow>
         (\<exists>msg. fst (save_embedding self name embedding) = Inl (Failure msg)) \<and>
         embeddings_file (snd (save_embedding self name embedding)) = embeddings_file self) \<and>
      map_of (dict_set (fst (load_embeddings self)) (py_strip raw) e) =
        (map_of (fst (load_embeddings self)))(py_strip raw \<mapsto> e) \<and>
      map fst (dict_set (fst (load_embeddings self)) (py_strip raw) e) =
        (if py_strip raw \<in> fst ` set (fst (load_embeddings self))
         then map fst (fst (load_embeddings self))
         else map fst (fst (load_embeddings self)) @ [py_strip raw]))"
proof (intro conjI allI impI)
  assume "name = None \<or> (\<exists>raw. name = Some raw \<and> py_strip raw = []) \<or> embedding = None"
  then show "\<exists>msg. save_embedding self name embedding = (Inl (ValueError msg), self)"
    by (auto simp: save_embedding_def split: option.splits)
next
  fix raw e
  assume v: "name = Some raw \<and> py_strip raw \<noteq> [] \<and> embedding = Some e"
  show "map_of (dict_set (fst (load_embeddings self)) (py_strip raw) e) =
        (map_of (fst (load_embeddings self)))(py_strip raw \<mapsto> e)"
    by (rule map_of_dict_set)
  show "map fst (dict_set (fst (load_embeddings self)) (py_strip raw) e) =
        (if py_strip raw \<in> fst ` set (fst (load_embeddings self))
         then map fst (fst (load_embeddings self))
         else map fst (fst (load_embeddings self)) @ [py_strip raw])"
    by (rule keys_dict_set)
  {
    assume w: "writable self"
    from v w show "fst (save_embedding self name embedding) = Inr ()"
      by (simp add: save_embedding_def load_embeddings_def Let_def split: pickle_file.splits)
    from v w show "embeddings_file (snd (save_embedding self name embedding)) =
           Pickled (dict_set (fst (load_embeddings self)) (py_strip raw) e)"
      by (simp add: save_embedding_def load_embeddings_def Let_def split: pickle_file.splits)
    from v w show "embeddings (snd (save_embedding self name embedding)) =
           dict_set (fst (load_embeddings self)) (py_strip raw) e"
      by (simp add: save_embedding_def load_embeddings_def Let_def split: pickle_file.splits)
  }
  {
    assume w: "\<not> writable self"
    from v w show "\<exists>msg. fst (save_embedding self name embedding) = Inl (Failure msg)"
      by (simp add: save_embedding_def load_embeddings_def Let_def split: pickle_file.splits)
    from v w show "embeddings_file (snd (save_embedding self name embedding)) = embeddings_file self"
      by (simp add: save_embedding_def load_embeddings_def Let_def split: pickle_file.splits)
  }
qed

theorem save_embedding_contract_witness:
  "py_strip ''  '' = [] \<and>
   save_embedding small_db (Some ''  '') (Some [0, 1]) =
     (Inl (ValueError ''Name cannot be empty''), small_db) \<and>
   py_strip '' Bob '' \<noteq> [] \<and> writable small_db \<and>
   fst (save_embedding small_db (Some '' Bob '') (Some [0, 1])) = Inr () \<and>
   embeddings_file (snd (save_embedding small_db (Some '' Bob '') (Some [0, 1]))) =
     Pickled [(''Ann'', [1, 0]), (''Bob'', [0, 1])]"
proof -
  have blank: "py_strip ''  '' = []" and bob: "py_strip '' Bob '' = ''Bob''"
    by (simp_all add: py_strip_def py_isspace_def)
  have w: "writable small_db" by (simp add: small_db_def)
  have loaded: "fst (load_embeddings small_db) = [(''Ann'', [1, 0])]"
    by (simp add: load_embeddings_def small_db_def)
  from save_embedding_contract [of "Some ''  ''" "Some [0, 1]" small_db] blank
  obtain msg where
    "save_embedding small_db (Some ''  '') (Some [0, 1]) = (Inl (ValueError msg), small_db)"
    by blast
  then have bad: "save_embedding small_db (Some ''  '') (Some [0, 1]) =
     (Inl (ValueError ''Name cannot be empty''), small_db)"
    by (simp add: save_embedding_def blank)
  from save_embedding_contract [of "Some '' Bob ''" "Some [0, 1]" small_db] w bob
  have "fst (save_embedding small_db (Some '' Bob '') (Some [0, 1])) = Inr () \<and>
        embeddings_file (snd (save_embedding small_db (Some '' Bob '') (Some [0, 1]))) =
          Pickled (dict_set (fst (load_embeddings small_db)) (py_strip '' Bob '') [0, 1])"
    by simp
  with loaded bob have good:
    "fst (save_embedding small_db (Some '' Bob '') (Some [0, 1])) = Inr () \<and>
     embeddings_file (snd (save_embedding small_db (Some '' Bob '') (Some [0, 1]))) =
       Pickled [(''Ann'', [1, 0]), (''Bob'', [0, 1])]"
    by simp
  from blank bad bob w good show ?thesis by simp
qed

text \<open>
  Claim C7. When the file cannot be unpickled, \<open>load_embeddings\<close> prints a warning
  and returns the empty registry, and \<open>get_all_names\<close>, \<open>get_embedding\<close>,
  \<open>get_count\<close>, \<open>delete_embedding\<close> and \<open>find_match\<close>, which all load first,
  return their empty answers; none of them raises. The same answers come back when
  there is no file, without the warning.
\<close>

theorem load_failure_degrades:
  "(embeddings_file self = Unreadable \<longrightarrow>
      load_embeddings self =
        ([], self\<lparr>embeddings := [],
                  printed := printed self @ [''Warning: Failed to load embeddings'']\<rparr>) \<and>
      get_all_names self = ([], snd (load_embeddings self)) \<and>
      get_embedding self name = (None, snd (load_embeddings self)) \<and>
      get_count self = (0, snd (load_embeddings self)) \<and>
      delete_embedding self name = (Inr False, snd (load_embeddings self))) \<and>
   (embeddings_file self = NoFile \<longrightarrow>
      load_embeddings self = ([], self\<lparr>embeddings := []\<rparr>) \<and>
      get_all_names self = ([], snd (load_embeddings self)) \<and>
      get_embedding self name = (None, snd (load_embeddings self)) \<and>
      get_count self = (0, snd (load_embeddings self)) \<and>
      delete_embedding self name = (Inr False, snd (load_embeddings self))) \<and>
   (embeddings_file (db m) = Unreadable \<or> embeddings_file (db m) = NoFile \<longrightarrow>
      find_match cs m query thr_arg = (Inr None, m\<lparr>db := snd (load_embeddings (db m))\<rparr>))"
  by (auto simp: load_embeddings_def get_all_names_def get_embedding_def get_count_def
      delete_embedding_def find_match_def Let_def)

theorem load_failure_degrades_witness:
  "embeddings_file corrupt_db = Unreadable \<and>
   load_embeddings corrupt_db =
     ([], \<lparr>embeddings_file = Unreadable, embeddings = [], writable = True,
           printed = [''Warning: Failed to load embeddings'']\<rparr>) \<and>
   fst (get_all_names corrupt_db) = [] \<and>
   fst (get_embedding corrupt_db ''Ann'') = None \<and>
   fst (get_count corrupt_db) = 0"
proof -
  have h: "embeddings_file corrupt_db = Unreadable"
    by (simp add: corrupt_db_def)
  from load_failure_degrades [of corrupt_db "''Ann''"] h
  have "load_embeddings corrupt_db =
        ([], corrupt_db\<lparr>embeddings := [],
                  printed := printed corrupt_db @ [''Warning: Failed to load embeddings'']\<rparr>) \<and>
      get_all_names corrupt_db = ([], snd (load_embeddings corrupt_db)) \<and>
      get_embedding corrupt_db ''Ann'' = (None, snd (load_embeddings corrupt_db)) \<and>
      get_count corrupt_db = (0, snd (load_embeddings corrupt_db))"
    by blast
  with h show ?thesis by (simp add: corrupt_db_def)
qed

section \<open>Properties of the attendance log\<close>

lemma set_insort_desc: "set (insort_desc k x ys) = insert x (set ys)"
  by (induction ys) auto

lemma mset_insort_desc: "mset (insort_desc k x ys) = add_mset x (mset ys)"
  by (induction ys) auto

lemma sorted_insort_desc:
  "sorted_wrt (\<lambda>a b. k b \<le> k a) ys \<Longrightarrow> sorted_wrt (\<lambda>a b. k b \<le> k a) (insort_desc k x ys)"
  by (induction ys) (auto simp: set_insort_desc)

lemma mset_sort_values: "mset (sort_values k df) = mset df"
  unfolding sort_values_def by (induction df) (simp_all add: mset_insort_desc)

lemma sorted_sort_values: "sorted_wrt (\<lambda>a b. k b \<le> k a) (sort_values k df)"
  unfolding sort_values_def by (induction df) (simp_all add: sorted_insort_desc)

lemma match_here_plain:
  "CHR ''.'' \<notin> set pat \<Longrightarrow>
   match_here pat s = (take (length pat) (map py_lower s) = map py_lower pat)"
  by (induction pat s rule: match_here.induct) auto

lemma re_search_shift: "re_search pat s = (\<exists>i \<le> length s. match_here pat (drop i s))"
proof (induction s)
  case Nil
  show ?case by simp
next
  case (Cons c cs)
  have "(\<exists>i \<le> length (c # cs). match_here pat (drop i (c # cs))) =
        (match_here pat (c # cs) \<or> (\<exists>j \<le> length cs. match_here pat (drop j cs)))"
  proof
    assume "\<exists>i \<le> length (c # cs). match_here pat (drop i (c # cs))"
    then obtain i where i: "i \<le> length (c # cs)" "match_here pat (drop i (c # cs))" by blast
    show "match_here pat (c # cs) \<or> (\<exists>j \<le> length cs. match_here pat (drop j cs))"
    proof (cases i)
      case 0
      with i show ?thesis by simp
    next
      case (Suc j)
      with i have "j \<le> length cs \<and> match_here pat (drop j cs)" by simp
      then show ?thesis by blast
    qed
  next
    assume "match_here pat (c # cs) \<or> (\<exists>j \<le> length cs. match_here pat (drop j cs))"
    then show "\<exists>i \<le> length (c # cs). match_here pat (drop i (c # cs))"
    proof
      assume "match_here pat (c # cs)"
      then have "0 \<le> length (c # cs) \<and> match_here pat (drop 0 (c # cs))" by simp
      then show ?thesis by blast
    next
      assume "\<exists>j \<le> length cs. match_here pat (drop j cs)"
      then obtain j where "j \<le> length cs" "match_here pat (drop j cs)" by blast
      then have "Suc j \<le> length (c # cs) \<and> match_here pat (drop (Suc j) (c # cs))" by simp
      then show ?thesis by blast
    qed
  qed
  with Cons show ?case by simp
qed

lemma re_search_plain:
  assumes "CHR ''.'' \<notin> set pat"
  shows "re_search pat s = contains_nocase pat s"
proof -
  have "re_search pat s =
      (\<exists>i \<le> length s. take (length pat) (map py_lower (drop i s)) = map py_lower pat)"
    by (simp add: re_search_shift match_here_plain [OF assms])
  also have "\<dots> = contains_nocase pat s"
    unfolding contains_nocase_def list_ex_iff set_upt drop_map Bex_def atLeastLessThan_iff
      less_Suc_eq_le
    by blast
  finally show ?thesis .
qed

text \<open>
  Claim C6, as stated, fails: the name filter is a regular expression, not a substring.
  With the single stored row of Bob and the name filter \<open>.\<close>, the log returns Bob's
  row, although \<open>Bob\<close> does not contain a dot.
\<close>

theorem name_filter_counterexample:
  "get_attendance_log no_re default_reader
     \<lparr>attendance_csv = Some [bob_row], marked_today = {}\<rparr> None (Some ''.'')
     = Inr [bob_row] \<and>
   \<not> contains_nocase ''.'' (Name bob_row)"
  by code_simp

lemma log_plain:
  assumes nf: "name_filter = None \<or> name_filter = Some []"
    and csv: "attendance_csv self = Some df"
  shows "\<exists>rs. get_attendance_log other rd self date_filter name_filter = Inr rs \<and>
      mset rs = mset (filter (\<lambda>r. case date_filter of None \<Rightarrow> True
                                  | Some d \<Rightarrow> d = [] \<or> Date r = d) df) \<and>
      sorted_wrt (\<lambda>a b. date_time b \<le> date_time a) rs"
proof (cases "df = []")
  case True
  with csv show ?thesis by (simp add: get_attendance_log_def)
next
  case False
  let ?df1 = "case date_filter of None \<Rightarrow> df
              | Some d \<Rightarrow> if d = [] then df else filter (\<lambda>r. Date r = d) df"
  have res: "get_attendance_log other rd self date_filter name_filter =
      Inr (sort_values date_time ?df1)"
    using nf csv False by (auto simp: get_attendance_log_def Let_def)
  have "?df1 = filter (\<lambda>r. case date_filter of None \<Rightarrow> True
                                  | Some d \<Rightarrow> d = [] \<or> Date r = d) df"
    by (simp split: option.splits)
  with res show ?thesis
    by (simp add: mset_sort_values sorted_sort_values)
qed

lemma str_contains_text:
  "reads_text rd column (Name r) \<Longrightarrow> str_contains rd column found r = found (Name r)"
  by (simp add: str_contains_def read_cell_def)

lemma log_named:
  assumes nf: "name_filter = Some pat" "pat \<noteq> []"
    and re: "re_compile_ignorecase other pat = Inr found"
    and csv: "attendance_csv self = Some df"
    and names: "\<forall>r \<in> set df. reads_text rd (map Name df) (Name r)"
    and acc: "\<forall>rows. set rows \<subseteq> set (map Name df) \<longrightarrow> str_accessor rd (map Name df) rows"
  shows "\<exists>rs. get_attendance_log other rd self date_filter name_filter = Inr rs \<and>
      mset rs = mset (filter (\<lambda>r. (case date_filter of None \<Rightarrow> True
                                   | Some d \<Rightarrow> d = [] \<or> Date r = d) \<and> found (Name r)) df) \<and>
      sorted_wrt (\<lambda>a b. date_time b \<le> date_time a) rs"
proof (cases "df = []")
  case True
  with csv show ?thesis by (simp add: get_attendance_log_def)
next
  case False
  let ?df1 = "case date_filter of None \<Rightarrow> df
              | Some d \<Rightarrow> if d = [] then df else filter (\<lambda>r. Date r = d) df"
  have sub: "set ?df1 \<subseteq> set df" by (auto split: option.splits)
  then have "set (map Name ?df1) \<subseteq> set (map Name df)" by auto
  with acc have ok: "str_accessor rd (map Name df) (map Name ?df1)" by blast
  have res: "get_attendance_log other rd self date_filter name_filter =
      Inr (sort_values date_time (filter (str_contains rd (map Name df) found) ?df1))"
    using nf re csv False ok by (simp add: get_attendance_log_def Let_def)
  have "filter (str_contains rd (map Name df) found) ?df1 = filter (\<lambda>r. found (Name r)) ?df1"
    using names sub by (intro filter_cong refl str_contains_text) blast
  also have "\<dots> = filter (\<lambda>r. (case date_filter of None \<Rightarrow> True
                    | Some d \<Rightarrow> d = [] \<or> Date r = d) \<and> found (Name r)) df"
    by (auto split: option.splits intro: filter_cong)
  finally show ?thesis using res
    by (simp add: mset_sort_values sorted_sort_values)
qed

text \<open>
  The two ways a name filter makes the call raise: the \<open>.str\<close> accessor on a column
  without strings, and a pattern that does not compile.
\<close>

lemma log_no_strings:
  assumes "name_filter = Some pat" "pat \<noteq> []" "df \<noteq> []"
    and "attendance_csv self = Some df"
    and "\<forall>rows. \<not> str_accessor rd (map Name df) rows"
  shows "get_attendance_log other rd self date_filter name_filter = Inl AttributeError"
  using assms by (simp add: get_attendance_log_def Let_def)

lemma log_bad_pattern:
  assumes "name_filter = Some pat" "pat \<noteq> []" "df \<noteq> []"
    and "re_compile_ignorecase other pat = Inl err"
    and "attendance_csv self = Some df"
    and "\<forall>rows. str_accessor rd (map Name df) rows"
  shows "get_attendance_log other rd self date_filter name_filter = Inl err"
  using assms by (simp add: get_attendance_log_def Let_def)

text \<open>
  Claim C6, amended. Without a file the log is empty and no error is raised. With a
  file, a filter that is \<open>None\<close> or empty is not applied. Without a name filter the
  result holds exactly the stored rows whose date equals the date filter. With a name
  filter that compiles as a regular expression, on a table whose names are read back
  as text, the result holds exactly the stored rows whose date equals the date filter
  and in whose name the pattern is found, letter case ignored. The result is in
  descending order of (date, time). For a filter without special characters the
  search is the substring test, letter case ignored.
\<close>

theorem get_attendance_log_contract:
  "(attendance_csv self = None \<longrightarrow>
      get_attendance_log other rd self date_filter name_filter = Inr []) \<and>
   (\<forall>df. attendance_csv self = Some df \<longrightarrow>
      (name_filter = None \<or> name_filter = Some [] \<longrightarrow>
         (\<exists>rs. get_attendance_log other rd self date_filter name_filter = Inr rs \<and>
            mset rs = mset (filter (\<lambda>r. case date_filter of None \<Rightarrow> True
                                        | Some d \<Rightarrow> d = [] \<or> Date r = d) df) \<and>
            sorted_wrt (\<lambda>a b. date_time b \<le> date_time a) rs)) \<and>
      (\<forall>pat found. name_filter = Some pat \<and> pat \<noteq> [] \<and>
           re_compile_ignorecase other pat = Inr found \<and>
           (\<forall>r \<in> set df. reads_text rd (map Name df) (Name r)) \<and>
           (\<forall>rows. set rows \<subseteq> set (map Name df) \<longrightarrow> str_accessor rd (map Name df) rows) \<longrightarrow>
         (\<exists>rs. get_attendance_log other rd self date_filter name_filter = Inr rs \<and>
            mset rs = mset (filter (\<lambda>r. (case date_filter of None \<Rightarrow> True
                                         | Some d \<Rightarrow> d = [] \<or> Date r = d) \<and>
                                        found (Name r)) df) \<and>
            sorted_wrt (\<lambda>a b. date_time b \<le> date_time a) rs))) \<and>
   (\<forall>pat. \<not> list_ex re_special pat \<and> CHR ''.'' \<notin> set pat \<longrightarrow>
      re_compile_ignorecase other pat = Inr (re_search pat) \<and>
      re_search pat = contains_nocase pat)"
proof (intro conjI allI impI)
  assume "attendance_csv self = None"
  then show "get_attendance_log other rd self date_filter name_filter = Inr []"
    by (simp add: get_attendance_log_def)
next
  fix df
  assume "attendance_csv self = Some df" and "name_filter = None \<or> name_filter = Some []"
  then show "\<exists>rs. get_attendance_log other rd self date_filter name_filter = Inr rs \<and>
            mset rs = mset (filter (\<lambda>r. case date_filter of None \<Rightarrow> True
                                        | Some d \<Rightarrow> d = [] \<or> Date r = d) df) \<and>
            sorted_wrt (\<lambda>a b. date_time b \<le> date_time a) rs"
    by (intro log_plain)
next
  fix df pat found
  assume csv: "attendance_csv self = Some df"
    and h: "name_filter = Some pat \<and> pat \<noteq> [] \<and>
           re_compile_ignorecase other pat = Inr found \<and>
           (\<forall>r \<in> set df. reads_text rd (map Name df) (Name r)) \<and>
           (\<forall>rows. set rows \<subseteq> set (map Name df) \<longrightarrow> str_accessor rd (map Name df) rows)"
  from h have nf: "name_filter = Some pat" and ne: "pat \<noteq> []"
    and re: "re_compile_ignorecase other pat = Inr found"
    and names: "\<forall>r \<in> set df. reads_text rd (map Name df) (Name r)"
    and acc: "\<forall>rows. set rows \<subseteq> set (map Name df) \<longrightarrow> str_accessor rd (map Name df) rows"
    by blast+
  from nf ne re csv names acc
  show "\<exists>rs. get_attendance_log other rd self date_filter name_filter = Inr rs \<and>
            mset rs = mset (filter (\<lambda>r. (case date_filter of None \<Rightarrow> True
                                         | Some d \<Rightarrow> d = [] \<or> Date r = d) \<and>
                                        found (Name r)) df) \<and>
            sorted_wrt (\<lambda>a b. date_time b \<le> date_time a) rs"
    by (rule log_named)
next
  fix pat
  assume "\<not> list_ex re_special pat \<and> CHR ''.'' \<notin> set pat"
  then show "re_compile_ignorecase other pat = Inr (re_search pat)"
    by (simp add: re_compile_ignorecase_def)
next
  fix pat
  assume "\<not> list_ex re_special pat \<and> CHR ''.'' \<notin> set pat"
  then have "re_search pat s = contains_nocase pat s" for s
    by (intro re_search_plain) simp
  then show "re_search pat = contains_nocase pat" by (rule ext)
qed

theorem get_attendance_log_contract_witness:
  "attendance_csv log_ledger = Some log_rows \<and>
   \<not> list_ex re_special ''ali'' \<and> CHR ''.'' \<notin> set ''ali'' \<and>
   list_all (\<lambda>r. reads_text default_reader (map Name log_rows) (Name r)) log_rows \<and>
   get_attendance_log no_re default_reader log_ledger None (Some ''ali'') =
     Inr [\<lparr>Name = ''Alice'', Date = ''2024-01-02'', Time = ''08:55:00''\<rparr>,
          \<lparr>Name = ''Khalid'', Date = ''2024-01-02'', Time = ''08:50:00''\<rparr>,
          \<lparr>Name = ''Alice'', Date = ''2024-01-01'', Time = ''09:00:00''\<rparr>] \<and>
   get_attendance_log no_re default_reader log_ledger (Some ''2024-01-01'') None =
     Inr [\<lparr>Name = ''Bob'', Date = ''2024-01-01'', Time = ''09:05:00''\<rparr>,
          \<lparr>Name = ''Alice'', Date = ''2024-01-01'', Time = ''09:00:00''\<rparr>] \<and>
   get_attendance_log no_re default_reader \<lparr>attendance_csv = None, marked_today = {}\<rparr>
     None (Some ''ali'') = Inr [] \<and>
   (\<exists>rs. get_attendance_log no_re default_reader log_ledger None (Some ''ali'') = Inr rs \<and>
      mset rs = mset (filter (\<lambda>r. contains_nocase ''ali'' (Name r)) log_rows) \<and>
      sorted_wrt (\<lambda>a b. date_time b \<le> date_time a) rs)"
proof -
  have csv: "attendance_csv log_ledger = Some log_rows" by (simp add: log_ledger_def)
  have plain: "\<not> list_ex re_special ''ali'' \<and> CHR ''.'' \<notin> set ''ali''"
    by (simp add: re_special_def)
  have untyped: "\<not> typed_column (map Name log_rows)"
    by (simp add: typed_column_def log_rows_def digits_def default_na_values_def)
  have names: "list_all (\<lambda>r. reads_text default_reader (map Name log_rows) (Name r)) log_rows"
    using untyped
    by (simp add: default_reader_def) (simp add: log_rows_def default_na_values_def)
  then have names': "\<forall>r \<in> set log_rows. reads_text default_reader (map Name log_rows) (Name r)"
    by (simp add: list_all_iff)
  have acc: "\<forall>rows. set rows \<subseteq> set (map Name log_rows) \<longrightarrow>
      str_accessor default_reader (map Name log_rows) rows"
    using untyped by (simp add: default_reader_def)
  have ex1: "get_attendance_log no_re default_reader log_ledger None (Some ''ali'') =
     Inr [\<lparr>Name = ''Alice'', Date = ''2024-01-02'', Time = ''08:55:00''\<rparr>,
          \<lparr>Name = ''Khalid'', Date = ''2024-01-02'', Time = ''08:50:00''\<rparr>,
          \<lparr>Name = ''Alice'', Date = ''2024-01-01'', Time = ''09:00:00''\<rparr>]"
    by code_simp
  have ex2: "get_attendance_log no_re default_reader log_ledger (Some ''2024-01-01'') None =
     Inr [\<lparr>Name = ''Bob'', Date = ''2024-01-01'', Time = ''09:05:00''\<rparr>,
          \<lparr>Name = ''Alice'', Date = ''2024-01-01'', Time = ''09:00:00''\<rparr>]"
    by code_simp
  note inst = get_attendance_log_contract
    [where self = log_ledger and other = no_re and rd = default_reader
       and date_filter = None and name_filter = "Some ''ali''"]
  from inst plain have comp: "re_compile_ignorecase no_re ''ali'' = Inr (re_search ''ali'')"
    and same: "re_search ''ali'' = contains_nocase ''ali''"
    by blast+
  from inst csv comp names' acc
  have "\<exists>rs. get_attendance_log no_re default_reader log_ledger None (Some ''ali'') = Inr rs \<and>
      mset rs = mset (filter (\<lambda>r. (case None :: string option of None \<Rightarrow> True
                                         | Some d \<Rightarrow> d = [] \<or> Date r = d) \<and>
                                        re_search ''ali'' (Name r)) log_rows) \<and>
      sorted_wrt (\<lambda>a b. date_time b \<le> date_time a) rs"
    by blast
  with same
  have ex3: "\<exists>rs. get_attendance_log no_re default_reader log_ledger None (Some ''ali'') = Inr rs \<and>
      mset rs = mset (filter (\<lambda>r. contains_nocase ''ali'' (Name r)) log_rows) \<and>
      sorted_wrt (\<lambda>a b. date_time b \<le> date_time a) rs"
    by simp
  from get_attendance_log_contract
    [where self = "\<lparr>attendance_csv = None, marked_today = {}\<rparr>" and other = no_re
       and rd = default_reader and date_filter = None and name_filter = "Some ''ali''"]
  have ex4: "get_attendance_log no_re default_reader \<lparr>attendance_csv = None, marked_today = {}\<rparr>
     None (Some ''ali'') = Inr []"
    by simp
  from csv plain names ex1 ex2 ex3 ex4 show ?thesis by blast
qed

section \<open>Properties of the face locator\<close>

lemma max_loop_ge_best: "key best \<le> key (max_loop key best xs)"
proof (induction xs arbitrary: best)
  case Nil
  show ?case by simp
next
  case (Cons x xs)
  show ?case
  proof (cases "key x > key best")
    case True
    with Cons [of x] show ?thesis by simp
  next
    case False
    with Cons [of best] show ?thesis by simp
  qed
qed

lemma max_loop_mem: "max_loop key best xs \<in> set (best # xs)"
  by (induction xs arbitrary: best) (auto split: if_splits)

lemma max_loop_ge: "x \<in> set xs \<Longrightarrow> key x \<le> key (max_loop key best xs)"
proof (induction xs arbitrary: best)
  case Nil
  then show ?case by simp
next
  case (Cons y ys)
  show ?case
  proof (cases "x = y")
    case True
    show ?thesis
    proof (cases "key y > key best")
      case True
      with \<open>x = y\<close> max_loop_ge_best [of key y ys] show ?thesis by simp
    next
      case False
      with \<open>x = y\<close> max_loop_ge_best [of key best ys] show ?thesis by simp
    qed
  next
    case False
    with Cons.prems have "x \<in> set ys" by simp
    then show ?thesis using Cons.IH by simp
  qed
qed

lemma py_max_largest:
  assumes "xs \<noteq> []"
  shows "\<exists>r. py_max key xs = Inr r \<and> r \<in> set xs \<and> (\<forall>x \<in> set xs. key x \<le> key r)"
proof -
  from assms obtain y ys where xs: "xs = y # ys" by (cases xs) auto
  have "py_max key xs = Inr (max_loop key y ys)" by (simp add: py_max_def xs)
  moreover have "max_loop key y ys \<in> set xs" using max_loop_mem [of key y ys] by (simp add: xs)
  moreover have "\<forall>x \<in> set xs. key x \<le> key (max_loop key y ys)"
    using max_loop_ge [of _ ys key y] max_loop_ge_best [of key y ys] by (auto simp: xs)
  ultimately show ?thesis by blast
qed

lemma py_slice_inside:
  assumes "0 \<le> a" and "0 \<le> n" and "a + n \<le> int (length xs)"
  shows "py_slice xs a (a + n) = take (nat n) (drop (nat a) xs)"
proof -
  from assms have "min a (int (length xs)) = a" and "min (a + n) (int (length xs)) = a + n"
    by simp_all
  with assms show ?thesis by (simp add: py_slice_def Let_def)
qed

lemma crop_inside:
  assumes "0 \<le> x" and "0 \<le> y" and "0 \<le> w" and "0 \<le> h"
    and rows: "y + h \<le> int (length fr)"
    and cols: "\<forall>row \<in> set fr. x + w \<le> int (length row)"
  shows "length (crop fr (x, y, w, h)) = nat h \<and>
    (\<forall>i < nat h. length (crop fr (x, y, w, h) ! i) = nat w \<and>
       (\<forall>j < nat w. crop fr (x, y, w, h) ! i ! j = fr ! (nat y + i) ! (nat x + j)))"
proof -
  have eq: "crop fr (x, y, w, h) =
      map (\<lambda>row. py_slice row x (x + w)) (take (nat h) (drop (nat y) fr))"
    using assms(2,4) rows by (simp add: crop_def py_slice_inside)
  from assms(2,4) rows have len: "nat h \<le> length fr - nat y" by linarith
  then have l: "length (crop fr (x, y, w, h)) = nat h" by (simp add: eq)
  have "length (crop fr (x, y, w, h) ! i) = nat w \<and>
       (\<forall>j < nat w. crop fr (x, y, w, h) ! i ! j = fr ! (nat y + i) ! (nat x + j))"
    if i: "i < nat h" for i
  proof -
    from i len have inb: "nat y + i < length fr" by linarith
    then have mem: "fr ! (nat y + i) \<in> set fr" by simp
    with cols have wide: "x + w \<le> int (length (fr ! (nat y + i)))" by blast
    from i len have "crop fr (x, y, w, h) ! i = py_slice (fr ! (nat y + i)) x (x + w)"
      by (simp add: eq)
    also have "\<dots> = take (nat w) (drop (nat x) (fr ! (nat y + i)))"
      using assms(1,3) wide by (rule py_slice_inside)
    finally have row: "crop fr (x, y, w, h) ! i = take (nat w) (drop (nat x) (fr ! (nat y + i)))" .
    from assms(1,3) wide have "nat w \<le> length (fr ! (nat y + i)) - nat x" by linarith
    then show ?thesis by (simp add: row)
  qed
  with l show ?thesis by blast
qed

text \<open>
  Claim C9. \<open>detect_face\<close> returns \<open>(None, None)\<close> when the cascade gives no
  rectangle (and when the frame is absent). Otherwise it selects one of the cascade's
  rectangles whose area \<open>w * h\<close> no other rectangle exceeds, and returns the resized
  crop of the frame at that rectangle together with the rectangle itself, unscaled.
  Given two rectangles of areas 900 and 400, in either order, it selects the one of
  area 900. The crop at a rectangle \<open>(x, y, w, h)\<close> that lies inside the frame has
  \<open>h\<close> rows of \<open>w\<close> pixels, and its pixel in row \<open>i\<close> and column \<open>j\<close> is the
  frame's pixel in row \<open>y + i\<close> and column \<open>x + j\<close>.
\<close>

theorem detect_face_largest:
  "detect_face cascade resize None = Inr None \<and>
   (cascade fr = [] \<longrightarrow> detect_face cascade resize (Some fr) = Inr None) \<and>
   (cascade fr \<noteq> [] \<longrightarrow>
      (\<exists>r. r \<in> set (cascade fr) \<and> (\<forall>x \<in> set (cascade fr). area x \<le> area r) \<and>
         detect_face cascade resize (Some fr) =
           (case resize (crop fr r) of
              Inl err \<Rightarrow> Inl err
            | Inr face_resized \<Rightarrow> Inr (Some (face_resized, r))))) \<and>
   (\<forall>a b. area a = 900 \<and> area b = 400 \<and> (cascade fr = [a, b] \<or> cascade fr = [b, a]) \<longrightarrow>
      detect_face cascade resize (Some fr) =
        (case resize (crop fr a) of
           Inl err \<Rightarrow> Inl err
         | Inr face_resized \<Rightarrow> Inr (Some (face_resized, a)))) \<and>
   (\<forall>x y w h. 0 \<le> x \<and> 0 \<le> y \<and> 0 \<le> w \<and> 0 \<le> h \<and> y + h \<le> int (length fr) \<and>
        (\<forall>row \<in> set fr. x + w \<le> int (length row)) \<longrightarrow>
      length (crop fr (x, y, w, h)) = nat h \<and>
      (\<forall>i < nat h. length (crop fr (x, y, w, h) ! i) = nat w \<and>
         (\<forall>j < nat w. crop fr (x, y, w, h) ! i ! j = fr ! (nat y + i) ! (nat x + j))))"
proof -
  have p1: "detect_face cascade resize None = Inr None"
    by (simp add: detect_face_def)
  have p2: "cascade fr = [] \<longrightarrow> detect_face cascade resize (Some fr) = Inr None"
    by (simp add: detect_face_def)
  have p3: "cascade fr \<noteq> [] \<longrightarrow>
      (\<exists>r. r \<in> set (cascade fr) \<and> (\<forall>x \<in> set (cascade fr). area x \<le> area r) \<and>
         detect_face cascade resize (Some fr) =
           (case resize (crop fr r) of
              Inl err \<Rightarrow> Inl err
            | Inr face_resized \<Rightarrow> Inr (Some (face_resized, r))))"
  proof
    assume ne: "cascade fr \<noteq> []"
    from py_max_largest [OF ne, of area] obtain r where
      r: "py_max area (cascade fr) = Inr r" "r \<in> set (cascade fr)"
         "\<forall>x \<in> set (cascade fr). area x \<le> area r"
      by blast
    from ne r(1) have "detect_face cascade resize (Some fr) =
           (case resize (crop fr r) of
              Inl err \<Rightarrow> Inl err
            | Inr face_resized \<Rightarrow> Inr (Some (face_resized, r)))"
      by (simp add: detect_face_def Let_def)
    with r(2,3) show "\<exists>r. r \<in> set (cascade fr) \<and> (\<forall>x \<in> set (cascade fr). area x \<le> area r) \<and>
         detect_face cascade resize (Some fr) =
           (case resize (crop fr r) of
              Inl err \<Rightarrow> Inl err
            | Inr face_resized \<Rightarrow> Inr (Some (face_resized, r)))"
      by blast
  qed
  have p4: "\<forall>a b. area a = 900 \<and> area b = 400 \<and> (cascade fr = [a, b] \<or> cascade fr = [b, a]) \<longrightarrow>
      detect_face cascade resize (Some fr) =
        (case resize (crop fr a) of
           Inl err \<Rightarrow> Inl err
         | Inr face_resized \<Rightarrow> Inr (Some (face_resized, a)))"
    by (auto simp: detect_face_def Let_def py_max_def)
  have p5: "\<forall>x y w h. 0 \<le> x \<and> 0 \<le> y \<and> 0 \<le> w \<and> 0 \<le> h \<and> y + h \<le> int (length fr) \<and>
        (\<forall>row \<in> set fr. x + w \<le> int (length row)) \<longrightarrow>
      length (crop fr (x, y, w, h)) = nat h \<and>
      (\<forall>i < nat h. length (crop fr (x, y, w, h) ! i) = nat w \<and>
         (\<forall>j < nat w. crop fr (x, y, w, h) ! i ! j = fr ! (nat y + i) ! (nat x + j)))"
  proof (intro allI impI)
    fix x y w h
    assume "0 \<le> x \<and> 0 \<le> y \<and> 0 \<le> w \<and> 0 \<le> h \<and> y + h \<le> int (length fr) \<and>
        (\<forall>row \<in> set fr. x + w \<le> int (length row))"
    then show "length (crop fr (x, y, w, h)) = nat h \<and>
      (\<forall>i < nat h. length (crop fr (x, y, w, h) ! i) = nat w \<and>
         (\<forall>j < nat w. crop fr (x, y, w, h) ! i ! j = fr ! (nat y + i) ! (nat x + j)))"
      by (intro crop_inside) blast+
  qed
  from p1 p2 p3 p4 p5 show ?thesis by (intro conjI)
qed

theorem detect_face_largest_witness:
  "area (0, 0, 30, 30) = 900 \<and> area (5, 5, 20, 20) = 400 \<and>
   two_faces wide_frame = [(5, 5, 20, 20), (0, 0, 30, 30)] \<and>
   detect_face two_faces same_size (Some wide_frame) =
     Inr (Some (replicate 30 (replicate 30 8), (0, 0, 30, 30))) \<and>
   detect_face no_faces same_size (Some wide_frame) = Inr None \<and>
   small_faces small_frame = [(0, 0, 1, 1), (1, 1, 2, 2)] \<and>
   detect_face small_faces same_size (Some small_frame) =
     Inr (Some ([[22, 23], [32, 33]], (1, 1, 2, 2))) \<and>
   length (crop small_frame (1, 1, 2, 2)) = 2 \<and>
   crop small_frame (1, 1, 2, 2) ! 0 ! 0 = small_frame ! 1 ! 1 \<and>
   crop small_frame (1, 1, 2, 2) ! 1 ! 1 = small_frame ! 2 ! 2 \<and>
   small_frame ! 1 ! 1 = 22 \<and> small_frame ! 2 ! 2 = 33"
proof -
  have a: "area (0, 0, 30, 30) = 900" and b: "area (5, 5, 20, 20) = 400"
    by (simp_all add: area_def)
  have c: "two_faces wide_frame = [(5, 5, 20, 20), (0, 0, 30, 30)]"
    by (simp add: two_faces_def)
  have cr: "crop wide_frame (0, 0, 30, 30) = replicate 30 (replicate 30 8)"
    by (simp add: crop_def py_slice_def wide_frame_def)
  from detect_face_largest [of two_faces same_size wide_frame] a b c
  have "detect_face two_faces same_size (Some wide_frame) =
        (case same_size (crop wide_frame (0, 0, 30, 30)) of
           Inl err \<Rightarrow> Inl err
         | Inr face_resized \<Rightarrow> Inr (Some (face_resized, (0, 0, 30, 30))))"
    by blast
  then have d: "detect_face two_faces same_size (Some wide_frame) =
     Inr (Some (replicate 30 (replicate 30 8), (0, 0, 30, 30)))"
    by (simp add: cr same_size_def)
  from detect_face_largest [of no_faces same_size wide_frame]
  have e: "detect_face no_faces same_size (Some wide_frame) = Inr None"
    by (simp add: no_faces_def)
  have f: "small_faces small_frame = [(0, 0, 1, 1), (1, 1, 2, 2)]"
    by (simp add: small_faces_def)
  have g: "detect_face small_faces same_size (Some small_frame) =
     Inr (Some ([[22, 23], [32, 33]], (1, 1, 2, 2)))"
    by code_simp
  have inside: "(0::int) \<le> 1 \<and> (0::int) \<le> 1 \<and> (0::int) \<le> 2 \<and> (0::int) \<le> 2 \<and>
      (1::int) + 2 \<le> int (length small_frame) \<and>
      (\<forall>row \<in> set small_frame. (1::int) + 2 \<le> int (length row))"
    by (simp add: small_frame_def)
  from detect_face_largest [of small_faces same_size small_frame] inside
  have cut: "length (crop small_frame (1, 1, 2, 2)) = nat 2 \<and>
      (\<forall>i < nat 2. length (crop small_frame (1, 1, 2, 2) ! i) = nat 2 \<and>
         (\<forall>j < nat 2. crop small_frame (1, 1, 2, 2) ! i ! j =
            small_frame ! (nat 1 + i) ! (nat 1 + j)))"
    by blast
  then have h1: "length (crop small_frame (1, 1, 2, 2)) = 2" by simp
  from cut have "crop small_frame (1, 1, 2, 2) ! 0 ! 0 = small_frame ! (nat 1 + 0) ! (nat 1 + 0)"
    by simp
  then have h2: "crop small_frame (1, 1, 2, 2) ! 0 ! 0 = small_frame ! 1 ! 1" by simp
  from cut have "crop small_frame (1, 1, 2, 2) ! 1 ! 1 = small_frame ! (nat 1 + 1) ! (nat 1 + 1)"
    by simp
  then have h3: "crop small_frame (1, 1, 2, 2) ! 1 ! 1 = small_frame ! 2 ! 2"
    by (simp add: numeral_2_eq_2)
  have h4: "small_frame ! 1 ! 1 = 22 \<and> small_frame ! 2 ! 2 = 33"
    by (simp add: small_frame_def numeral_2_eq_2)
  from a b c d e f g h1 h2 h3 h4 show ?thesis by simp
qed

end
